theory Spec2Isabelle
  imports Main
begin

section \<open>Strings\<close>

text \<open>
  A JavaScript string is modelled as a \<^typ>\<open>string\<close>: a list of code units, here the code
  units below 256 (ASCII and Latin-1). The string methods the analysed code calls are
  written out as list functions.
\<close>

text \<open>\<^verbatim>\<open>s.startsWith(p)\<close>\<close>

fun startsWith :: "string \<Rightarrow> string \<Rightarrow> bool" where
  "startsWith s [] = True"
| "startsWith [] (p # ps) = False"
| "startsWith (c # cs) (p # ps) = (c = p \<and> startsWith cs ps)"

text \<open>\<^verbatim>\<open>s.includes(sub)\<close>: \<open>sub\<close> occurs in \<open>s\<close> at some position.\<close>

fun strIncludes :: "string \<Rightarrow> string \<Rightarrow> bool" where
  "strIncludes [] sub = startsWith [] sub"
| "strIncludes (c # cs) sub = (startsWith (c # cs) sub \<or> strIncludes cs sub)"

text \<open>
  \<^verbatim>\<open>s.toLowerCase()\<close> on code units below 256: the ASCII capitals and the Latin-1
  capitals U+00C0 to U+00DE (the multiplication sign U+00D7 apart) move up by 32.
\<close>

definition toLowerChar :: "char \<Rightarrow> char" where
  "toLowerChar c =
     (let n = (of_char c :: nat) in
      if (65 \<le> n \<and> n \<le> 90) \<or> (192 \<le> n \<and> n \<le> 222 \<and> n \<noteq> 215)
      then char_of (n + 32) else c)"

definition toLowerCase :: "string \<Rightarrow> string" where
  "toLowerCase s = map toLowerChar s"

section \<open>FileTypeClassifier\<close>

datatype FileCategory = Core | Report | Config | Tool | Entry

datatype EdgeType = Normal | Processing | Special | Internal | Utility | Indirect

text \<open>\<^verbatim>\<open>FileTypeClassifier.classifyFile\<close>: five guarded returns and a default.\<close>

definition classifyFile :: "string \<Rightarrow> string \<Rightarrow> FileCategory" where
  "classifyFile relativePath fileName =
     (let lowerPath = toLowerCase relativePath;
          lowerFileName = toLowerCase fileName in
      if lowerFileName = ''index.ts'' \<or>
         lowerFileName = ''index.js'' \<or>
         lowerFileName = ''index.tsx'' \<or>
         lowerFileName = ''index.jsx'' \<or>
         lowerFileName = ''index.mjs'' \<or>
         lowerFileName = ''__init__.py'' \<or>
         strIncludes lowerFileName ''files-and-dirs'' \<or>
         strIncludes lowerFileName ''options'' \<or>
         strIncludes lowerPath ''/main/'' \<or>
         strIncludes lowerPath ''/entry/''
      then Entry
      else if
         strIncludes lowerPath ''/report/'' \<or>
         strIncludes lowerPath ''/reports/'' \<or>
         strIncludes lowerPath ''/transform/'' \<or>
         strIncludes lowerPath ''/transforms/'' \<or>
         strIncludes lowerPath ''/graph-'' \<or>
         strIncludes lowerFileName ''report'' \<or>
         strIncludes lowerFileName ''transform'' \<or>
         strIncludes lowerFileName ''consolidate'' \<or>
         strIncludes lowerFileName ''match-facade'' \<or>
         strIncludes lowerFileName ''gosubsum''
      then Report
      else if
         strIncludes lowerPath ''/bin/'' \<or>
         strIncludes lowerPath ''/cache/'' \<or>
         strIncludes lowerPath ''/tools/'' \<or>
         strIncludes lowerPath ''/tool/'' \<or>
         strIncludes lowerFileName ''hotspots'' \<or>
         strIncludes lowerFileName ''wrap-stream'' \<or>
         strIncludes lowerFileName ''options-compatible''
      then Tool
      else if
         strIncludes lowerPath ''/validate/'' \<or>
         strIncludes lowerPath ''/validators/'' \<or>
         strIncludes lowerPath ''/config/'' \<or>
         strIncludes lowerPath ''/configs/'' \<or>
         strIncludes lowerPath ''/config-'' \<or>
         strIncludes lowerPath ''/cli/'' \<or>
         strIncludes lowerPath ''/indexers/'' \<or>
         strIncludes lowerPath ''/performance/'' \<or>
         strIncludes lowerPath ''/utils/'' \<or>
         strIncludes lowerPath ''/util/'' \<or>
         strIncludes lowerPath ''/helpers/'' \<or>
         strIncludes lowerFileName ''validator'' \<or>
         strIncludes lowerFileName ''config'' \<or>
         strIncludes lowerFileName ''format-helpers'' \<or>
         strIncludes lowerFileName ''merge-configs'' \<or>
         strIncludes lowerFileName ''match-dependency-rule''
      then Config
      else if
         strIncludes lowerPath ''/enrich/'' \<or>
         strIncludes lowerPath ''/extract/'' \<or>
         strIncludes lowerPath ''/schema/'' \<or>
         strIncludes lowerPath ''/schemas/'' \<or>
         strIncludes lowerPath ''/summarize/'' \<or>
         strIncludes lowerPath ''/acorn/'' \<or>
         strIncludes lowerPath ''/tsc/'' \<or>
         strIncludes lowerPath ''/resolve/'' \<or>
         strIncludes lowerPath ''/transpile/'' \<or>
         strIncludes lowerFileName ''extract'' \<or>
         strIncludes lowerFileName ''schema'' \<or>
         strIncludes lowerFileName ''enrich'' \<or>
         strIncludes lowerFileName ''summarize'' \<or>
         strIncludes lowerFileName ''reachable'' \<or>
         strIncludes lowerFileName ''derive'' \<or>
         strIncludes lowerFileName ''main-result-schema''
      then Core
      else Entry)"

text \<open>
  The guards of the five returns, each on the lower-cased path and file name, named so
  that the order of evaluation can be stated.
\<close>

definition entryRule :: "string \<Rightarrow> string \<Rightarrow> bool" where
  "entryRule lowerPath lowerFileName =
     (lowerFileName = ''index.ts'' \<or>
      lowerFileName = ''index.js'' \<or>
      lowerFileName = ''index.tsx'' \<or>
      lowerFileName = ''index.jsx'' \<or>
      lowerFileName = ''index.mjs'' \<or>
      lowerFileName = ''__init__.py'' \<or>
      strIncludes lowerFileName ''files-and-dirs'' \<or>
      strIncludes lowerFileName ''options'' \<or>
      strIncludes lowerPath ''/main/'' \<or>
      strIncludes lowerPath ''/entry/'')"

definition reportRule :: "string \<Rightarrow> string \<Rightarrow> bool" where
  "reportRule lowerPath lowerFileName =
     (strIncludes lowerPath ''/report/'' \<or>
      strIncludes lowerPath ''/reports/'' \<or>
      strIncludes lowerPath ''/transform/'' \<or>
      strIncludes lowerPath ''/transforms/'' \<or>
      strIncludes lowerPath ''/graph-'' \<or>
      strIncludes lowerFileName ''report'' \<or>
      strIncludes lowerFileName ''transform'' \<or>
      strIncludes lowerFileName ''consolidate'' \<or>
      strIncludes lowerFileName ''match-facade'' \<or>
      strIncludes lowerFileName ''gosubsum'')"

text \<open>The tool guard without its last test, and that last test on its own.\<close>

definition toolRuleOther :: "string \<Rightarrow> string \<Rightarrow> bool" where
  "toolRuleOther lowerPath lowerFileName =
     (strIncludes lowerPath ''/bin/'' \<or>
      strIncludes lowerPath ''/cache/'' \<or>
      strIncludes lowerPath ''/tools/'' \<or>
      strIncludes lowerPath ''/tool/'' \<or>
      strIncludes lowerFileName ''hotspots'' \<or>
      strIncludes lowerFileName ''wrap-stream'')"

definition toolRule :: "string \<Rightarrow> string \<Rightarrow> bool" where
  "toolRule lowerPath lowerFileName =
     (toolRuleOther lowerPath lowerFileName \<or>
      strIncludes lowerFileName ''options-compatible'')"

definition configRule :: "string \<Rightarrow> string \<Rightarrow> bool" where
  "configRule lowerPath lowerFileName =
     (strIncludes lowerPath ''/validate/'' \<or>
      strIncludes lowerPath ''/validators/'' \<or>
      strIncludes lowerPath ''/config/'' \<or>
      strIncludes lowerPath ''/configs/'' \<or>
      strIncludes lowerPath ''/config-'' \<or>
      strIncludes lowerPath ''/cli/'' \<or>
      strIncludes lowerPath ''/indexers/'' \<or>
      strIncludes lowerPath ''/performance/'' \<or>
      strIncludes lowerPath ''/utils/'' \<or>
      strIncludes lowerPath ''/util/'' \<or>
      strIncludes lowerPath ''/helpers/'' \<or>
      strIncludes lowerFileName ''validator'' \<or>
      strIncludes lowerFileName ''config'' \<or>
      strIncludes lowerFileName ''format-helpers'' \<or>
      strIncludes lowerFileName ''merge-configs'' \<or>
      strIncludes lowerFileName ''match-dependency-rule'')"

definition coreRule :: "string \<Rightarrow> string \<Rightarrow> bool" where
  "coreRule lowerPath lowerFileName =
     (strIncludes lowerPath ''/enrich/'' \<or>
      strIncludes lowerPath ''/extract/'' \<or>
      strIncludes lowerPath ''/schema/'' \<or>
      strIncludes lowerPath ''/schemas/'' \<or>
      strIncludes lowerPath ''/summarize/'' \<or>
      strIncludes lowerPath ''/acorn/'' \<or>
      strIncludes lowerPath ''/tsc/'' \<or>
      strIncludes lowerPath ''/resolve/'' \<or>
      strIncludes lowerPath ''/transpile/'' \<or>
      strIncludes lowerFileName ''extract'' \<or>
      strIncludes lowerFileName ''schema'' \<or>
      strIncludes lowerFileName ''enrich'' \<or>
      strIncludes lowerFileName ''summarize'' \<or>
      strIncludes lowerFileName ''reachable'' \<or>
      strIncludes lowerFileName ''derive'' \<or>
      strIncludes lowerFileName ''main-result-schema'')"

text \<open>\<^verbatim>\<open>FileTypeClassifier.classifyEdge\<close>\<close>

definition classifyEdge :: "FileCategory \<Rightarrow> FileCategory \<Rightarrow> string \<Rightarrow> string \<Rightarrow> EdgeType" where
  "classifyEdge sourceCategory targetCategory sourcePath targetPath =
     (let lowerSourcePath = toLowerCase sourcePath;
          lowerTargetPath = toLowerCase targetPath in
      if sourceCategory = Config \<or>
         targetCategory = Config \<or>
         strIncludes lowerSourcePath ''/config/'' \<or>
         strIncludes lowerTargetPath ''/config/'' \<or>
         strIncludes lowerSourcePath ''/cli/'' \<or>
         strIncludes lowerTargetPath ''/cli/''
      then Indirect
      else if sourceCategory = Report \<and> targetCategory = Report
      then Internal
      else if
         (sourceCategory = Core \<and> targetCategory = Core) \<or>
         strIncludes lowerSourcePath ''/extract/'' \<or>
         strIncludes lowerTargetPath ''/extract/'' \<or>
         strIncludes lowerSourcePath ''/enrich/'' \<or>
         strIncludes lowerTargetPath ''/enrich/''
      then Processing
      else if
         sourceCategory = Tool \<or>
         targetCategory = Tool \<or>
         strIncludes lowerSourcePath ''/utils/'' \<or>
         strIncludes lowerTargetPath ''/utils/''
      then Utility
      else if
         strIncludes lowerSourcePath ''/options/'' \<or>
         strIncludes lowerTargetPath ''/resolve/''
      then Special
      else Normal)"

text \<open>\<^verbatim>\<open>getEdgeColor\<close>: the table has every edge type, so the fallback never applies.\<close>

fun getEdgeColor :: "EdgeType \<Rightarrow> string" where
  "getEdgeColor Normal = ''#0066CC''"
| "getEdgeColor Processing = ''#00AA00''"
| "getEdgeColor Special = ''#CC0000''"
| "getEdgeColor Internal = ''#8B00FF''"
| "getEdgeColor Utility = ''#FF6600''"
| "getEdgeColor Indirect = ''#0099CC''"

datatype LineStyle = Solid | Dashed

definition getEdgeStyle :: "EdgeType \<Rightarrow> LineStyle" where
  "getEdgeStyle edgeType = (if edgeType = Indirect then Dashed else Solid)"

text \<open>The extensions \<^verbatim>\<open>CodebaseAnalyzer.supportedExtensions\<close> holds.\<close>

definition supportedExtensions :: "string list" where
  "supportedExtensions =
     [''.js'', ''.jsx'', ''.ts'', ''.tsx'', ''.mjs'', ''.cjs'',
      ''.py'', ''.java'', ''.cpp'', ''.c'', ''.h'', ''.hpp'',
      ''.rs'', ''.go'']"

section \<open>More string and array methods\<close>

text \<open>
  \<^verbatim>\<open>s.split(c)\<close> for a separator of one character: the fields between the separators,
  at least one (the empty string splits into one empty field).
\<close>

fun splitChar :: "char \<Rightarrow> string \<Rightarrow> string list" where
  "splitChar sep [] = [[]]"
| "splitChar sep (c # cs) =
     (if c = sep then [] # splitChar sep cs
      else (case splitChar sep cs of
              [] \<Rightarrow> [[c]]
            | w # ws \<Rightarrow> (c # w) # ws))"

text \<open>\<^verbatim>\<open>xs.join(sep)\<close>\<close>

fun joinWith :: "string \<Rightarrow> string list \<Rightarrow> string" where
  "joinWith sep [] = []"
| "joinWith sep [x] = x"
| "joinWith sep (x # y # ys) = x @ sep @ joinWith sep (y # ys)"

text \<open>
  Insertion into a \<^verbatim>\<open>Set\<close>, and \<^verbatim>\<open>[...new Set(xs)]\<close>: the first occurrence of every
  element, in order.
\<close>

definition setAdd :: "'a list \<Rightarrow> 'a \<Rightarrow> 'a list" where
  "setAdd xs x = (if x \<in> set xs then xs else xs @ [x])"

definition uniq :: "'a list \<Rightarrow> 'a list" where
  "uniq xs = foldl setAdd [] xs"

text \<open>
  A \<^verbatim>\<open>Map\<close> is a list of entries in insertion order with distinct keys:
  \<^verbatim>\<open>m.get(k)\<close>, \<^verbatim>\<open>m.has(k)\<close> and \<^verbatim>\<open>m.set(k, v)\<close>, which keeps the place of a key that is
  already there.
\<close>

definition mapGet :: "('k \<times> 'v) list \<Rightarrow> 'k \<Rightarrow> 'v option" where
  "mapGet m k = map_of m k"

definition mapHas :: "('k \<times> 'v) list \<Rightarrow> 'k \<Rightarrow> bool" where
  "mapHas m k = (map_of m k \<noteq> None)"

fun mapSet :: "('k \<times> 'v) list \<Rightarrow> 'k \<Rightarrow> 'v \<Rightarrow> ('k \<times> 'v) list" where
  "mapSet [] k v = [(k, v)]"
| "mapSet ((k', v') # m) k v = (if k' = k then (k, v) # m else (k', v') # mapSet m k v)"

text \<open>Decimal digits of a number, as \<^verbatim>\<open>String(n)\<close> and template strings print it.\<close>

definition digitChar :: "nat \<Rightarrow> char" where
  "digitChar d = (if d < 10 then char_of (48 + d) else char_of (55 + d))"

function toStringRadix :: "nat \<Rightarrow> nat \<Rightarrow> string" where
  "toStringRadix b n =
     (if b < 2 \<or> n < b then [digitChar n]
      else toStringRadix b (n div b) @ [digitChar (n mod b)])"
  by pat_completeness auto
termination
  by (relation "measure (\<lambda>(b, n). n)") auto

declare toStringRadix.simps [simp del]

text \<open>
  \<^verbatim>\<open>n.toString(10)\<close>, and \<^verbatim>\<open>n.toString(36).toUpperCase()\<close>: \<open>digitChar\<close> writes the digits
  from ten on as the capitals \<^verbatim>\<open>A\<close> to \<^verbatim>\<open>Z\<close>.
\<close>

definition toStringNat :: "nat \<Rightarrow> string" where
  "toStringNat n = toStringRadix 10 n"

section \<open>The \<^verbatim>\<open>path\<close> module (POSIX)\<close>

text \<open>
  Node's \<^verbatim>\<open>path\<close> functions for POSIX paths, on the segments between the separators.
  \<open>cwd\<close> stands for \<^verbatim>\<open>process.cwd()\<close>.
\<close>

definition sep :: string where
  "sep = ''/''"

definition isAbsolute :: "string \<Rightarrow> bool" where
  "isAbsolute p = startsWith p ''/''"

definition segments :: "string \<Rightarrow> string list" where
  "segments p = filter (\<lambda>s. s \<noteq> []) (splitChar CHR ''/'' p)"

text \<open>
  \<^verbatim>\<open>normalizeString\<close>: a \<^verbatim>\<open>.\<close> segment is dropped; a \<^verbatim>\<open>..\<close> segment removes the segment
  before it, and where there is none (or only \<^verbatim>\<open>..\<close>) it stays if \<open>allowAboveRoot\<close> and is
  dropped otherwise. The stack \<open>acc\<close> is kept reversed.
\<close>

fun normalizeSegs :: "bool \<Rightarrow> string list \<Rightarrow> string list \<Rightarrow> string list" where
  "normalizeSegs allowAboveRoot acc [] = rev acc"
| "normalizeSegs allowAboveRoot acc (s # ss) =
     (if s = ''.'' then normalizeSegs allowAboveRoot acc ss
      else if s = ''..'' then
        (case acc of
           [] \<Rightarrow> normalizeSegs allowAboveRoot (if allowAboveRoot then [''..''] else []) ss
         | t # ts \<Rightarrow>
             if t = ''..'' then normalizeSegs allowAboveRoot (''..'' # t # ts) ss
             else normalizeSegs allowAboveRoot ts ss)
      else normalizeSegs allowAboveRoot (s # acc) ss)"

text \<open>\<^verbatim>\<open>path.normalize(p)\<close>\<close>

definition pathNormalize :: "string \<Rightarrow> string" where
  "pathNormalize p =
     (if p = [] then ''.''
      else
        (let isAbs = isAbsolute p;
             trailingSeparator = (last p = CHR ''/'');
             q = joinWith ''/'' (normalizeSegs (\<not> isAbs) [] (segments p)) in
         if q = [] then (if isAbs then ''/'' else if trailingSeparator then ''./'' else ''.'')
         else (if isAbs then ''/'' else []) @ q @ (if trailingSeparator then ''/'' else [])))"

text \<open>\<^verbatim>\<open>path.join(a, b)\<close>: the arguments that are not empty, joined and normalised.\<close>

definition pathJoin :: "string \<Rightarrow> string \<Rightarrow> string" where
  "pathJoin a b =
     (let joined = joinWith ''/'' (filter (\<lambda>s. s \<noteq> []) [a, b]) in
      if joined = [] then ''.'' else pathNormalize joined)"

text \<open>
  \<^verbatim>\<open>path.resolve(a, b)\<close>: the arguments are taken from the right until one is absolute,
  the working directory being the last resort.
\<close>

definition pathResolve2 :: "string \<Rightarrow> string \<Rightarrow> string \<Rightarrow> string" where
  "pathResolve2 cwd a b =
     (let parts = (if isAbsolute b then [b]
                   else if isAbsolute a then [a, b]
                   else [cwd, a, b]);
          resolvedAbsolute = isAbsolute (hd parts);
          q = joinWith ''/'' (normalizeSegs (\<not> resolvedAbsolute) [] (concat (map segments parts))) in
      if resolvedAbsolute then ''/'' @ q
      else if q = [] then ''.'' else q)"

text \<open>\<^verbatim>\<open>path.resolve(p)\<close>\<close>

definition pathResolve1 :: "string \<Rightarrow> string \<Rightarrow> string" where
  "pathResolve1 cwd p = pathResolve2 cwd [] p"

text \<open>
  \<^verbatim>\<open>path.dirname(p)\<close>: the scan runs from the end down to index 1, over the trailing
  separators and then over the last segment, and cuts at the separator before it.
\<close>

definition dirname :: "string \<Rightarrow> string" where
  "dirname p =
     (case p of
        [] \<Rightarrow> ''.''
      | c # cs \<Rightarrow>
          (let hasRoot = (c = CHR ''/'');
               r = dropWhile (\<lambda>x. x \<noteq> CHR ''/'') (dropWhile (\<lambda>x. x = CHR ''/'') (rev cs)) in
           case r of
             [] \<Rightarrow> (if hasRoot then ''/'' else ''.'')
           | _ # front \<Rightarrow>
               if hasRoot \<and> front = [] then ''//'' else c # rev front))"

text \<open>\<^verbatim>\<open>path.basename(p)\<close>: the last segment, trailing separators apart.\<close>

definition basename :: "string \<Rightarrow> string" where
  "basename p =
     rev (takeWhile (\<lambda>x. x \<noteq> CHR ''/'') (dropWhile (\<lambda>x. x = CHR ''/'') (rev p)))"

text \<open>
  \<^verbatim>\<open>path.extname(p)\<close>: the base name from its last dot on; empty when the base name has
  no dot, starts with its only dot, or is \<^verbatim>\<open>..\<close>.
\<close>

definition extname :: "string \<Rightarrow> string" where
  "extname p =
     (let b = rev (basename p);
          suffix = takeWhile (\<lambda>x. x \<noteq> CHR ''.'') b;
          rest = dropWhile (\<lambda>x. x \<noteq> CHR ''.'') b in
      case rest of
        [] \<Rightarrow> []
      | _ # front \<Rightarrow>
          if front = [] \<or> basename p = ''..'' then [] else CHR ''.'' # rev suffix)"

text \<open>
  \<^verbatim>\<open>path.relative(from, to)\<close>: both are resolved, the common leading segments are
  dropped, and every segment left of \<open>from\<close> becomes \<^verbatim>\<open>..\<close>.
\<close>

fun dropCommon :: "string list \<Rightarrow> string list \<Rightarrow> string list \<times> string list" where
  "dropCommon (x # xs) (y # ys) = (if x = y then dropCommon xs ys else (x # xs, y # ys))"
| "dropCommon xs ys = (xs, ys)"

definition pathRelative :: "string \<Rightarrow> string \<Rightarrow> string \<Rightarrow> string" where
  "pathRelative cwd from to =
     (if from = to then []
      else
        (let f = pathResolve1 cwd from; t = pathResolve1 cwd to in
         if f = t then []
         else (case dropCommon (segments f) (segments t) of
                 (fs, ts) \<Rightarrow> joinWith ''/'' (map (\<lambda>_. ''..'') fs @ ts))))"

section \<open>Regular expressions\<close>

text \<open>
  The extractor scans file contents with JavaScript regular expressions. They are
  modelled by a backtracking matcher that returns, for a pattern and an input, the
  inputs left after every way of matching the pattern at the start, in the order in which
  a backtracking engine tries them: the left alternative before the right one, a longer
  repetition before a shorter one (all quantifiers used are greedy). The flag says
  whether the position is the start of the whole input, for \<^verbatim>\<open>^\<close>.
\<close>

datatype rx =
    Lit string
  | Cls "char \<Rightarrow> bool"
  | Bol
  | Seq rx rx
  | Alt rx rx
  | Star rx

fun rxMatch :: "rx \<Rightarrow> bool \<Rightarrow> string \<Rightarrow> string list" where
  "rxMatch (Lit l) atStart s = (if startsWith s l then [drop (length l) s] else [])"
| "rxMatch (Cls P) atStart s =
     (case s of [] \<Rightarrow> [] | c # cs \<Rightarrow> if P c then [cs] else [])"
| "rxMatch Bol atStart s = (if atStart then [s] else [])"
| "rxMatch (Seq r1 r2) atStart s =
     concat (map (\<lambda>s1. rxMatch r2 (atStart \<and> length s1 = length s) s1) (rxMatch r1 atStart s))"
| "rxMatch (Alt r1 r2) atStart s = rxMatch r1 atStart s @ rxMatch r2 atStart s"
| "rxMatch (Star r) atStart s =
     concat (map (\<lambda>s1. rxMatch (Star r) False s1)
               (filter (\<lambda>s1. length s1 < length s) (rxMatch r atStart s)))
     @ [s]"

text \<open>\<^verbatim>\<open>r+\<close>, \<^verbatim>\<open>r?\<close> and a sequence of several patterns.\<close>

definition Plus :: "rx \<Rightarrow> rx" where
  "Plus r = Seq r (Star r)"

definition Opt :: "rx \<Rightarrow> rx" where
  "Opt r = Alt r (Lit [])"

fun Seqs :: "rx list \<Rightarrow> rx" where
  "Seqs [] = Lit []"
| "Seqs [r] = r"
| "Seqs (r # rs) = Seq r (Seqs rs)"

text \<open>
  The character classes \<^verbatim>\<open>\s\<close>, \<^verbatim>\<open>\S\<close> and \<^verbatim>\<open>\w\<close> on code units below 256: white space
  is tab, line feed, vertical tab, form feed, carriage return, space and the no-break
  space U+00A0.
\<close>

definition isSpace :: "char \<Rightarrow> bool" where
  "isSpace c = (let n = (of_char c :: nat) in (9 \<le> n \<and> n \<le> 13) \<or> n = 32 \<or> n = 160)"

definition isWord :: "char \<Rightarrow> bool" where
  "isWord c =
     (let n = (of_char c :: nat) in
      (48 \<le> n \<and> n \<le> 57) \<or> (65 \<le> n \<and> n \<le> 90) \<or> n = 95 \<or> (97 \<le> n \<and> n \<le> 122))"

definition rxSpace :: rx where
  "rxSpace = Cls isSpace"

definition rxNonSpace :: rx where
  "rxNonSpace = Cls (\<lambda>c. \<not> isSpace c)"

definition rxWord :: rx where
  "rxWord = Cls isWord"

text \<open>\<^verbatim>\<open>['"]\<close> and \<^verbatim>\<open>[^'"]\<close>: the two quote characters have the codes 0x27 and 0x22.\<close>

definition isQuote :: "char \<Rightarrow> bool" where
  "isQuote c = (c = CHR 0x27 \<or> c = CHR 0x22)"

definition rxQuote :: rx where
  "rxQuote = Cls isQuote"

definition rxNonQuote :: rx where
  "rxNonQuote = Cls (\<lambda>c. \<not> isQuote c)"

definition newline :: char where
  "newline = CHR 0x0A"

text \<open>
  A pattern with one capture group is given as the part before the group, the group and
  the part after it. \<open>rxExecAt\<close> is the first way of matching the three in sequence at
  the start of \<open>s\<close>: the text of the group and the input left after the whole match.
\<close>

definition rxExecAt :: "rx \<Rightarrow> rx \<Rightarrow> rx \<Rightarrow> bool \<Rightarrow> string \<Rightarrow> (string \<times> string) option" where
  "rxExecAt pre grp post atStart s =
     (case concat (map (\<lambda>s1.
             concat (map (\<lambda>s2.
               map (\<lambda>s3. (take (length s1 - length s2) s1, s3))
                 (rxMatch post (atStart \<and> length s2 = length s) s2))
               (rxMatch grp (atStart \<and> length s1 = length s) s1)))
             (rxMatch pre atStart s)) of
        [] \<Rightarrow> None
      | m # _ \<Rightarrow> Some m)"

text \<open>
  The loop \<^verbatim>\<open>while ((match = re.exec(content)) !== null)\<close> of a pattern with the
  \<^verbatim>\<open>g\<close> flag: the leftmost match from the current position on is taken, its group is
  collected, and the search goes on where the match ended. None of the patterns below
  matches the empty string; the matcher stops at a match that consumes nothing.
\<close>

function rxExecAll :: "rx \<Rightarrow> rx \<Rightarrow> rx \<Rightarrow> bool \<Rightarrow> string \<Rightarrow> string list" where
  "rxExecAll pre grp post atStart s =
     (case rxExecAt pre grp post atStart s of
        Some (g, rest) \<Rightarrow>
          if length rest < length s then g # rxExecAll pre grp post False rest else []
      | None \<Rightarrow>
          (case s of [] \<Rightarrow> [] | c # cs \<Rightarrow> rxExecAll pre grp post False cs))"
  by pat_completeness auto
termination
  by (relation "measure (\<lambda>(pre, grp, post, atStart, s). length s)") auto

declare rxExecAll.simps [simp del]

text \<open>\<^verbatim>\<open>content.match(re)\<close> without the \<^verbatim>\<open>g\<close> flag: the group of the leftmost match.\<close>

fun rxFirst :: "rx \<Rightarrow> rx \<Rightarrow> rx \<Rightarrow> bool \<Rightarrow> string \<Rightarrow> string option" where
  "rxFirst pre grp post atStart s =
     (case rxExecAt pre grp post atStart s of
        Some (g, rest) \<Rightarrow> Some g
      | None \<Rightarrow>
          (case s of [] \<Rightarrow> None | c # cs \<Rightarrow> rxFirst pre grp post False cs))"

declare rxFirst.simps [simp del]

section \<open>The file system\<close>

text \<open>
  The file system is a snapshot: a tree of directories, regular files and other nodes
  (sockets, devices), without symbolic links. A file holds its content unless it cannot
  be read; a directory lists its entries in the order \<^verbatim>\<open>readdir\<close> returns them unless it
  cannot be read. Within one snapshot \<^verbatim>\<open>statSync\<close> cannot fail on a path for which
  \<^verbatim>\<open>existsSync\<close> has just answered true.
\<close>

datatype fsnode =
    RegularFile "string option"
  | Directory bool "(string \<times> fsnode) list"
  | Special

record env =
  cwd :: string
  fsroot :: fsnode

text \<open>
  Path resolution as the operating system does it, component by component from the root
  (from \<open>cwd\<close> for a relative path): an empty component or \<^verbatim>\<open>.\<close> stays in the current
  directory, \<^verbatim>\<open>..\<close> goes to its parent (the root is its own parent), a name goes to the
  entry of that name. Every component, also an empty one after a trailing separator, needs
  the node reached so far to be a directory; the empty path names nothing. \<open>fsLookup\<close>
  carries the node reached and the directories above it.
\<close>

fun fsLookup :: "fsnode \<Rightarrow> fsnode list \<Rightarrow> string list \<Rightarrow> fsnode option" where
  "fsLookup n parents [] = Some n"
| "fsLookup (Directory readable entries) parents (s # ss) =
     (if s = [] \<or> s = ''.'' then fsLookup (Directory readable entries) parents ss
      else if s = ''..'' then
        (case parents of
           [] \<Rightarrow> fsLookup (Directory readable entries) [] ss
         | p # ps \<Rightarrow> fsLookup p ps ss)
      else
        (case map_of entries s of
           None \<Rightarrow> None
         | Some child \<Rightarrow> fsLookup child (Directory readable entries # parents) ss))"
| "fsLookup (RegularFile content) parents (s # ss) = None"
| "fsLookup Special parents (s # ss) = None"

definition fsAt :: "env \<Rightarrow> string \<Rightarrow> fsnode option" where
  "fsAt e p =
     (if p = [] then None
      else fsLookup (fsroot e) []
             (if isAbsolute p then splitChar CHR ''/'' p
              else splitChar CHR ''/'' (cwd e) @ splitChar CHR ''/'' p))"

text \<open>\<^verbatim>\<open>fs.existsSync(p)\<close> and \<^verbatim>\<open>fs.statSync(p).isFile()\<close>\<close>

definition existsSync :: "env \<Rightarrow> string \<Rightarrow> bool" where
  "existsSync e p = (fsAt e p \<noteq> None)"

definition statIsFile :: "env \<Rightarrow> string \<Rightarrow> bool" where
  "statIsFile e p = (case fsAt e p of Some (RegularFile content) \<Rightarrow> True | _ \<Rightarrow> False)"

text \<open>
  \<^verbatim>\<open>fs.promises.readFile(p, "utf-8")\<close>: \<open>None\<close> when the promise is rejected (no such
  file, a directory, no permission).
\<close>

definition readFile :: "env \<Rightarrow> string \<Rightarrow> string option" where
  "readFile e p = (case fsAt e p of Some (RegularFile (Some content)) \<Rightarrow> Some content | _ \<Rightarrow> None)"

section \<open>CodebaseAnalyzer: the data and the extractor\<close>

record CodebaseDependency =
  module :: string
  resolved :: "string option"
  dependencyTypes :: "string list"
  valid :: bool

record CodebaseModule =
  source :: string
  relativePath :: string
  fileName :: string
  languageId :: string
  fileCategory :: FileCategory
  dependencies :: "CodebaseDependency list"
  dependents :: "string list"
  functionNames :: "string list"
  exports :: "string list"

text \<open>
  \<^verbatim>\<open>getLanguageId\<close>: the table, and \<^verbatim>\<open>"unknown"\<close> for an extension that is not in it.
\<close>

definition getLanguageId :: "string \<Rightarrow> string" where
  "getLanguageId ext =
     (case map_of
        [(''.js'', ''javascript''), (''.jsx'', ''javascript''), (''.mjs'', ''javascript''),
         (''.cjs'', ''javascript''), (''.ts'', ''typescript''), (''.tsx'', ''typescript''),
         (''.py'', ''python''), (''.java'', ''java''), (''.cpp'', ''cpp''), (''.cxx'', ''cpp''),
         (''.cc'', ''cpp''), (''.c'', ''c''), (''.h'', ''c''), (''.hpp'', ''cpp''),
         (''.rs'', ''rust''), (''.go'', ''go'')] ext of
        Some l \<Rightarrow> l
      | None \<Rightarrow> ''unknown'')"

text \<open>
  The resolvers return, next to their result, the paths they passed to
  \<^verbatim>\<open>fs.existsSync\<close>, in the order of the calls.

  The first loop of \<^verbatim>\<open>resolveModulePath\<close>: the first candidate \<^verbatim>\<open>resolved + ext\<close> that
  exists and is a regular file.
\<close>

fun tryExtensions :: "env \<Rightarrow> string \<Rightarrow> string list \<Rightarrow> string option \<times> string list" where
  "tryExtensions e resolvedBase [] = (None, [])"
| "tryExtensions e resolvedBase (ext # exts) =
     (let withExt = resolvedBase @ ext in
      if existsSync e withExt \<and> statIsFile e withExt then (Some withExt, [withExt])
      else (case tryExtensions e resolvedBase exts of (r, probes) \<Rightarrow> (r, withExt # probes)))"

text \<open>The second loop: the first \<^verbatim>\<open>path.join(resolved, indexExt)\<close> that exists.\<close>

fun tryIndexFiles :: "env \<Rightarrow> string \<Rightarrow> string list \<Rightarrow> string option \<times> string list" where
  "tryIndexFiles e resolvedBase [] = (None, [])"
| "tryIndexFiles e resolvedBase (indexExt # rest) =
     (let indexPath = pathJoin resolvedBase indexExt in
      if existsSync e indexPath then (Some indexPath, [indexPath])
      else (case tryIndexFiles e resolvedBase rest of (r, probes) \<Rightarrow> (r, indexPath # probes)))"

definition extensions :: "string list" where
  "extensions = [[], ''.js'', ''.ts'', ''.jsx'', ''.tsx'', ''.mjs'', ''.cjs'']"

definition indexExtensions :: "string list" where
  "indexExtensions = [''index.js'', ''index.ts'', ''index.jsx'', ''index.tsx'']"

text \<open>
  \<^verbatim>\<open>resolveModulePath\<close>. No call in its \<^verbatim>\<open>try\<close> block fails on a snapshot, so the
  \<^verbatim>\<open>catch\<close> branch has no counterpart here.
\<close>

definition resolveModulePath ::
  "env \<Rightarrow> string \<Rightarrow> string \<Rightarrow> string \<Rightarrow> string option \<times> string list" where
  "resolveModulePath e workspaceRoot modulePath fromFile =
     (if \<not> startsWith modulePath ''.'' \<and> \<not> startsWith modulePath ''/'' then (None, [])
      else
        (let fromDir = dirname fromFile;
             resolvedBase =
               (if startsWith modulePath ''/'' then pathJoin workspaceRoot modulePath
                else pathResolve2 (cwd e) fromDir modulePath) in
         case tryExtensions e resolvedBase extensions of
           (Some withExt, probes) \<Rightarrow> (Some withExt, probes)
         | (None, probes) \<Rightarrow>
             (case tryIndexFiles e resolvedBase indexExtensions of
                (r, probes') \<Rightarrow> (r, probes @ probes'))))"

text \<open>\<^verbatim>\<open>modulePath.replace(/\./g, path.sep)\<close>\<close>

definition dotsToSep :: "string \<Rightarrow> string" where
  "dotsToSep s = concat (map (\<lambda>c. if c = CHR ''.'' then sep else [c]) s)"

definition backslash :: string where
  "backslash = [CHR 0x5C]"

text \<open>\<^verbatim>\<open>resolvePythonModule\<close>\<close>

definition resolvePythonModule ::
  "env \<Rightarrow> string \<Rightarrow> string \<Rightarrow> string \<Rightarrow> string option \<times> string list" where
  "resolvePythonModule e workspaceRoot modulePath fromFile =
     (if \<not> strIncludes modulePath ''/'' \<and> \<not> strIncludes modulePath backslash then (None, [])
      else
        (let fromDir = dirname fromFile;
             resolvedBase =
               (if startsWith modulePath ''.''
                then pathResolve2 (cwd e) fromDir (dotsToSep modulePath)
                else pathResolve2 (cwd e) workspaceRoot (dotsToSep modulePath));
             withExt = resolvedBase @ ''.py'' in
         if existsSync e withExt \<and> statIsFile e withExt then (Some withExt, [withExt])
         else
           (let initPath = pathJoin resolvedBase ''__init__.py'' in
            if existsSync e initPath then (Some initPath, [withExt, initPath])
            else (None, [withExt, initPath]))))"

text \<open>
  The three patterns of \<^verbatim>\<open>extractDependencies\<close>, each as the part before the group,
  the group, and the part after it:
  \<^verbatim>\<open>import\s+(?:(?:\*\s+as\s+\w+)|(?:\{[^}]*\})|(?:\w+))\s+from\s+['"]([^'"]+)['"]\<close>,
  \<^verbatim>\<open>require\s*\(\s*['"]([^'"]+)['"]\s*\)\<close> and
  \<^verbatim>\<open>(?:^|\n)\s*(?:import|from)\s+(\S+)\<close>.
\<close>

definition importRegexPre :: rx where
  "importRegexPre =
     Seqs [Lit ''import'', Plus rxSpace,
           Alt (Seqs [Lit ''*'', Plus rxSpace, Lit ''as'', Plus rxSpace, Plus rxWord])
             (Alt (Seqs [Lit ''{'', Star (Cls (\<lambda>c. c \<noteq> CHR ''}'')), Lit ''}''])
                (Plus rxWord)),
           Plus rxSpace, Lit ''from'', Plus rxSpace, rxQuote]"

definition importMatches :: "string \<Rightarrow> string list" where
  "importMatches content = rxExecAll importRegexPre (Plus rxNonQuote) rxQuote True content"

definition requireRegexPre :: rx where
  "requireRegexPre = Seqs [Lit ''require'', Star rxSpace, Lit ''('', Star rxSpace, rxQuote]"

definition requireMatches :: "string \<Rightarrow> string list" where
  "requireMatches content =
     rxExecAll requireRegexPre (Plus rxNonQuote) (Seqs [rxQuote, Star rxSpace, Lit '')'']) True content"

definition pythonImportRegexPre :: rx where
  "pythonImportRegexPre =
     Seqs [Alt Bol (Lit [newline]), Star rxSpace,
           Alt (Lit ''import'') (Lit ''from''), Plus rxSpace]"

definition pythonImportMatches :: "string \<Rightarrow> string list" where
  "pythonImportMatches content =
     rxExecAll pythonImportRegexPre (Plus rxNonSpace) (Lit []) True content"

text \<open>
  \<^verbatim>\<open>extractDependencies\<close>: one record for every match, the import matches before the
  require matches.
\<close>

definition extractDependencies ::
  "env \<Rightarrow> string \<Rightarrow> string \<Rightarrow> string \<Rightarrow> string \<Rightarrow> CodebaseDependency list" where
  "extractDependencies e workspaceRoot content filePath langId =
     (if langId = ''typescript'' \<or> langId = ''javascript'' then
        map (\<lambda>modulePath.
               (let res = fst (resolveModulePath e workspaceRoot modulePath filePath) in
                \<lparr>module = modulePath, resolved = res, dependencyTypes = [''import''],
                 valid = (res \<noteq> None)\<rparr>))
          (importMatches content)
        @
        map (\<lambda>modulePath.
               (let res = fst (resolveModulePath e workspaceRoot modulePath filePath) in
                \<lparr>module = modulePath, resolved = res, dependencyTypes = [''require''],
                 valid = (res \<noteq> None)\<rparr>))
          (requireMatches content)
      else if langId = ''python'' then
        map (\<lambda>m.
               (let modulePath = hd (splitChar CHR ''.'' (hd (splitChar CHR '' '' m)));
                    res = fst (resolvePythonModule e workspaceRoot modulePath filePath) in
                \<lparr>module = modulePath, resolved = res, dependencyTypes = [''import''],
                 valid = (res \<noteq> None)\<rparr>))
          (pythonImportMatches content)
      else [])"

text \<open>
  \<^verbatim>\<open>extractFunctions\<close>, with the patterns
  \<^verbatim>\<open>(?:export\s+)?(?:async\s+)?function\s+(\w+)\<close>,
  \<^verbatim>\<open>(?:export\s+)?(?:const|let|var)\s+(\w+)\s*[:=]\s*(?:async\s*)?\(\<close>,
  \<^verbatim>\<open>(?:public\s+|private\s+|protected\s+)?(\w+)\s*\(\<close> and, for Python,
  \<^verbatim>\<open>def\s+(\w+)\s*\(\<close>. The matches of the third pattern are added only when new.
\<close>

definition funcDeclMatches :: "string \<Rightarrow> string list" where
  "funcDeclMatches content =
     rxExecAll
       (Seqs [Opt (Seq (Lit ''export'') (Plus rxSpace)), Opt (Seq (Lit ''async'') (Plus rxSpace)),
              Lit ''function'', Plus rxSpace])
       (Plus rxWord) (Lit []) True content"

definition arrowFuncMatches :: "string \<Rightarrow> string list" where
  "arrowFuncMatches content =
     rxExecAll
       (Seqs [Opt (Seq (Lit ''export'') (Plus rxSpace)),
              Alt (Lit ''const'') (Alt (Lit ''let'') (Lit ''var'')), Plus rxSpace])
       (Plus rxWord)
       (Seqs [Star rxSpace, Cls (\<lambda>c. c = CHR '':'' \<or> c = CHR ''=''), Star rxSpace,
              Opt (Seq (Lit ''async'') (Star rxSpace)), Lit ''(''])
       True content"

definition methodMatches :: "string \<Rightarrow> string list" where
  "methodMatches content =
     rxExecAll
       (Opt (Alt (Seq (Lit ''public'') (Plus rxSpace))
               (Alt (Seq (Lit ''private'') (Plus rxSpace))
                  (Seq (Lit ''protected'') (Plus rxSpace)))))
       (Plus rxWord) (Seq (Star rxSpace) (Lit ''('')) True content"

definition pythonDefMatches :: "string \<Rightarrow> string list" where
  "pythonDefMatches content =
     rxExecAll (Seq (Lit ''def'') (Plus rxSpace)) (Plus rxWord)
       (Seq (Star rxSpace) (Lit ''('')) True content"

definition extractFunctions :: "string \<Rightarrow> string \<Rightarrow> string list" where
  "extractFunctions content langId =
     (if langId = ''typescript'' \<or> langId = ''javascript'' then
        foldl setAdd (funcDeclMatches content @ arrowFuncMatches content) (methodMatches content)
      else if langId = ''python'' then pythonDefMatches content
      else [])"

text \<open>
  \<^verbatim>\<open>extractExports\<close>, with the patterns
  \<^verbatim>\<open>export\s+(?:function|const|let|class|async\s+function)\s+(\w+)\<close> and, for Python,
  \<^verbatim>\<open>__all__\s*=\s*\[([^\]]+)\]\<close>, whose group is split at the commas; every item is
  trimmed and loses its quotes.
\<close>

definition exportMatches :: "string \<Rightarrow> string list" where
  "exportMatches content =
     rxExecAll
       (Seqs [Lit ''export'', Plus rxSpace,
              Alt (Lit ''function'') (Alt (Lit ''const'') (Alt (Lit ''let'') (Alt (Lit ''class'')
                (Seqs [Lit ''async'', Plus rxSpace, Lit ''function''])))),
              Plus rxSpace])
       (Plus rxWord) (Lit []) True content"

definition pythonAllMatch :: "string \<Rightarrow> string option" where
  "pythonAllMatch content =
     rxFirst (Seqs [Lit ''__all__'', Star rxSpace, Lit ''='', Star rxSpace, Lit ''[''])
       (Plus (Cls (\<lambda>c. c \<noteq> CHR '']''))) (Lit '']'') True content"

definition trim :: "string \<Rightarrow> string" where
  "trim s = rev (dropWhile isSpace (rev (dropWhile isSpace s)))"

definition extractExports :: "string \<Rightarrow> string \<Rightarrow> string list" where
  "extractExports content langId =
     (if langId = ''typescript'' \<or> langId = ''javascript'' then exportMatches content
      else if langId = ''python'' then
        (case pythonAllMatch content of
           Some g \<Rightarrow> map (\<lambda>s. filter (\<lambda>c. \<not> isQuote c) (trim s)) (splitChar CHR '','' g)
         | None \<Rightarrow> [])
      else [])"

text \<open>
  \<^verbatim>\<open>analyzeFile\<close>: \<open>None\<close> when the file cannot be read (the error is caught and
  logged); nothing after the read fails.
\<close>

definition analyzeFile :: "env \<Rightarrow> string \<Rightarrow> string \<Rightarrow> CodebaseModule option" where
  "analyzeFile e workspaceRoot filePath =
     (case readFile e filePath of
        None \<Rightarrow> None
      | Some content \<Rightarrow>
          (let relPath = pathRelative (cwd e) workspaceRoot filePath;
               fName = basename filePath;
               ext = extname filePath;
               langId = getLanguageId ext in
           Some \<lparr>source = filePath,
                 relativePath = relPath,
                 fileName = fName,
                 languageId = langId,
                 fileCategory = classifyFile relPath fName,
                 dependencies = extractDependencies e workspaceRoot content filePath langId,
                 dependents = [],
                 functionNames = extractFunctions content langId,
                 exports = extractExports content langId\<rparr>))"

section \<open>CodebaseAnalyzer: discovery and linking\<close>

text \<open>The names \<^verbatim>\<open>walkDir\<close> skips.\<close>

definition skipEntry :: "string \<Rightarrow> bool" where
  "skipEntry name =
     (startsWith name ''.'' \<or> name = ''node_modules'' \<or> name = ''dist'' \<or>
      name = ''build'' \<or> name = ''.git'')"

text \<open>
  \<^verbatim>\<open>walkDir(dir)\<close>, on the node found at \<open>dir\<close>: a directory that cannot be read (or a
  node that is no directory) makes \<^verbatim>\<open>readdir\<close> fail, the error is caught and the
  subtree contributes nothing. \<open>walkEntries\<close> is the loop over the entries.
\<close>

fun walkDir :: "string \<Rightarrow> fsnode \<Rightarrow> string list"
  and walkEntries :: "string \<Rightarrow> (string \<times> fsnode) list \<Rightarrow> string list" where
  "walkDir dir (Directory readable entries) = (if readable then walkEntries dir entries else [])"
| "walkDir dir (RegularFile content) = []"
| "walkDir dir Special = []"
| "walkEntries dir [] = []"
| "walkEntries dir ((name, child) # rest) =
     (let fullPath = pathJoin dir name in
      (if skipEntry name then []
       else (case child of
               Directory readable entries \<Rightarrow> walkDir fullPath child
             | RegularFile content \<Rightarrow>
                 if extname name \<in> set supportedExtensions then [fullPath] else []
             | Special \<Rightarrow> []))
      @ walkEntries dir rest)"

definition getAllSupportedFiles :: "env \<Rightarrow> string \<Rightarrow> string list" where
  "getAllSupportedFiles e workspaceRoot =
     (case fsAt e workspaceRoot of
        None \<Rightarrow> []
      | Some n \<Rightarrow> walkDir workspaceRoot n)"

text \<open>What escapes as an exception (a rejected promise).\<close>

datatype error = StatError string | TypeError

text \<open>
  \<^verbatim>\<open>getFilesFromPaths\<close>: \<^verbatim>\<open>fs.promises.stat\<close> is awaited outside any \<^verbatim>\<open>try\<close>, so its
  failure leaves the function. \<open>selectedFiles\<close> is the loop, with the files pushed so far.
\<close>

fun selectedFiles :: "env \<Rightarrow> string \<Rightarrow> string list \<Rightarrow> string list \<Rightarrow> error + string list" where
  "selectedFiles e workspaceRoot files [] = Inr files"
| "selectedFiles e workspaceRoot files (selectedPath # rest) =
     (case fsAt e selectedPath of
        None \<Rightarrow> Inl (StatError selectedPath)
      | Some (RegularFile content) \<Rightarrow> selectedFiles e workspaceRoot (files @ [selectedPath]) rest
      | Some (Directory readable entries) \<Rightarrow>
          (let dirFiles = getAllSupportedFiles e workspaceRoot;
               filtered = filter (\<lambda>file.
                   (let fileRelative = pathRelative (cwd e) selectedPath file in
                    \<not> startsWith fileRelative ''..'' \<and> \<not> isAbsolute fileRelative)) dirFiles in
           selectedFiles e workspaceRoot (files @ filtered) rest)
      | Some Special \<Rightarrow> selectedFiles e workspaceRoot files rest)"

definition getFilesFromPaths :: "env \<Rightarrow> string \<Rightarrow> string list \<Rightarrow> error + string list" where
  "getFilesFromPaths e workspaceRoot selectedPaths =
     (case selectedFiles e workspaceRoot [] selectedPaths of
        Inl err \<Rightarrow> Inl err
      | Inr files \<Rightarrow> Inr (uniq files))"

text \<open>
  \<^verbatim>\<open>resolveDependencies\<close>: for every module in map order and every dependency in list
  order, the source is pushed onto the dependents of the module the dependency resolves
  to, if that module is in the map and does not list the source yet. A resolved path is
  tested for truth, so the empty string counts like \<^verbatim>\<open>null\<close>.
\<close>

type_synonym modules = "(string \<times> CodebaseModule) list"

definition truthy :: "string option \<Rightarrow> bool" where
  "truthy v = (case v of None \<Rightarrow> False | Some s \<Rightarrow> s \<noteq> [])"

definition addDependent :: "string \<Rightarrow> modules \<Rightarrow> CodebaseDependency \<Rightarrow> modules" where
  "addDependent src ms dep =
     (case resolved dep of
        None \<Rightarrow> ms
      | Some target \<Rightarrow>
          if target \<noteq> [] \<and> mapHas ms target then
            (case mapGet ms target of
               None \<Rightarrow> ms
             | Some dependentModule \<Rightarrow>
                 if src \<in> set (dependents dependentModule) then ms
                 else mapSet ms target
                        (dependentModule\<lparr>dependents := dependents dependentModule @ [src]\<rparr>))
          else ms)"

definition resolveDependencies :: "modules \<Rightarrow> modules" where
  "resolveDependencies ms =
     foldl (\<lambda>acc (src, m). foldl (addDependent src) acc (dependencies m)) ms ms"

text \<open>
  \<^verbatim>\<open>analyzeCodebase\<close>: the map is cleared, the files are found, every file that can be
  read is entered under its path, and the dependents are linked.
\<close>

definition analyzeFiles :: "env \<Rightarrow> string \<Rightarrow> string list \<Rightarrow> modules" where
  "analyzeFiles e workspaceRoot files =
     foldl (\<lambda>ms filePath.
              (case analyzeFile e workspaceRoot filePath of
                 None \<Rightarrow> ms
               | Some m \<Rightarrow> mapSet ms (source m) m))
       [] files"

definition analyzeCodebase :: "env \<Rightarrow> string \<Rightarrow> string list option \<Rightarrow> error + modules" where
  "analyzeCodebase e workspaceRoot selectedPaths =
     (case (case selectedPaths of
              Some paths \<Rightarrow> getFilesFromPaths e workspaceRoot paths
            | None \<Rightarrow> Inr (getAllSupportedFiles e workspaceRoot)) of
        Inl err \<Rightarrow> Inl err
      | Inr filesToAnalyze \<Rightarrow>
          Inr (resolveDependencies (analyzeFiles e workspaceRoot filesToAnalyze)))"

section \<open>CodebaseMermaidGenerator\<close>

text \<open>
  The generator object: the module map and the workspace root it was given, the flag, and
  the two maps \<^verbatim>\<open>generate\<close> fills. Every method takes the object and returns what it
  changed of it.
\<close>

record generator =
  genModules :: modules
  genWorkspaceRoot :: string
  namesHashMap :: "(string \<times> string) list"
  minify :: bool
  nodeIdToModule :: "(string \<times> CodebaseModule) list"

text \<open>The constructor.\<close>

definition newGenerator :: "modules \<Rightarrow> string \<Rightarrow> bool \<Rightarrow> generator" where
  "newGenerator ms root mini =
     \<lparr>genModules = ms, genWorkspaceRoot = root, namesHashMap = [], minify = mini,
      nodeIdToModule = []\<rparr>"

text \<open>
  \<^verbatim>\<open>hashToReadableNodeName\<close>: three replacements in a row. The first two patterns are
  anchored at the start, so each replaces at most once.
\<close>

definition replaceLeading :: "string \<Rightarrow> string \<Rightarrow> string \<Rightarrow> string" where
  "replaceLeading dots replacement s =
     (if s = dots then replacement
      else if startsWith s (dots @ ''/'') then replacement @ drop (length dots + 1) s
      else s)"

definition hashToReadableNodeName :: "string \<Rightarrow> string" where
  "hashToReadableNodeName nodeName =
     map (\<lambda>c. if c \<in> set ''[]/.@~-'' then CHR ''_'' else c)
       (replaceLeading ''..'' ''__prevPath__''
          (replaceLeading ''.'' ''__currentPath__'' nodeName))"

text \<open>
  \<^verbatim>\<open>relativePath.split(path.sep).filter((p) => p)\<close>, and the prefixes
  \<^verbatim>\<open>paths.slice(0, i + 1).join(path.sep)\<close> for \<open>i\<close> from 0 on.
\<close>

definition pathSegments :: "string \<Rightarrow> string list" where
  "pathSegments rel = filter (\<lambda>p. p \<noteq> []) (splitChar CHR ''/'' rel)"

definition pathPrefixes :: "string list \<Rightarrow> string list" where
  "pathPrefixes paths = map (\<lambda>i. joinWith sep (take (i + 1) paths)) [0..<length paths]"

text \<open>The first loop of \<^verbatim>\<open>hashModuleNames\<close>: the set \<^verbatim>\<open>allPaths\<close>.\<close>

definition collectPaths :: "modules \<Rightarrow> string list" where
  "collectPaths ms =
     foldl (\<lambda>allPaths (filePath, m).
              setAdd (foldl setAdd allPaths (pathPrefixes (pathSegments (relativePath m))))
                (relativePath m))
       [] ms"

text \<open>The second loop: an identifier for every path that has none, with the counter.\<close>

definition assignId ::
  "bool \<Rightarrow> (string \<times> string) list \<times> nat \<Rightarrow> string \<Rightarrow> (string \<times> string) list \<times> nat" where
  "assignId mini st rel =
     (case st of (names, count) \<Rightarrow>
        if \<not> mapHas names rel then
          (if mini then (mapSet names rel (''N'' @ toStringRadix 36 count), count + 1)
           else (mapSet names rel (hashToReadableNodeName rel), count))
        else (names, count))"

text \<open>The third loop: the absolute paths get the identifiers of the relative ones.\<close>

definition linkAbsolute ::
  "(string \<times> string) list \<times> (string \<times> CodebaseModule) list \<Rightarrow> string \<times> CodebaseModule \<Rightarrow>
   (string \<times> string) list \<times> (string \<times> CodebaseModule) list" where
  "linkAbsolute st entry =
     (case (st, entry) of ((names, idToModule), (filePath, m)) \<Rightarrow>
        (case mapGet names (relativePath m) of
           None \<Rightarrow> (names, idToModule)
         | Some hashedId \<Rightarrow>
             if hashedId \<noteq> [] then (mapSet names filePath hashedId, mapSet idToModule hashedId m)
             else (names, idToModule)))"

definition hashModuleNames :: "generator \<Rightarrow> generator" where
  "hashModuleNames g =
     (let allPaths = collectPaths (genModules g);
          names1 = fst (foldl (assignId (minify g)) (namesHashMap g, 0) allPaths);
          st = foldl linkAbsolute (names1, nodeIdToModule g) (genModules g) in
      g\<lparr>namesHashMap := fst st, nodeIdToModule := snd st\<rparr>)"

text \<open>
  The tree of \<^verbatim>\<open>convertSubgraphSources\<close>: a node has the identifier looked up for it
  (\<open>None\<close> for \<^verbatim>\<open>undefined\<close>), its label and its children, an object whose own properties
  are kept in the order of their creation.
\<close>

datatype tree = TreeNode "string option" string "(string \<times> tree) list"

fun nodeOf :: "tree \<Rightarrow> string option" where
  "nodeOf (TreeNode n t c) = n"

fun textOf :: "tree \<Rightarrow> string" where
  "textOf (TreeNode n t c) = t"

fun childrenOf :: "tree \<Rightarrow> (string \<times> tree) list" where
  "childrenOf (TreeNode n t c) = c"

text \<open>
  The children are plain objects, so \<^verbatim>\<open>children[currentPath]\<close> also finds what
  \<^verbatim>\<open>Object.prototype\<close> has under that name: a value that is true and has no
  \<^verbatim>\<open>children\<close>.
\<close>

definition objectPrototypeNames :: "string list" where
  "objectPrototypeNames =
     [''constructor'', ''__defineGetter__'', ''__defineSetter__'', ''hasOwnProperty'',
      ''__lookupGetter__'', ''__lookupSetter__'', ''isPrototypeOf'', ''propertyIsEnumerable'',
      ''toString'', ''valueOf'', ''__proto__'', ''toLocaleString'']"

text \<open>
  The \<^verbatim>\<open>reduce\<close> over the segments of one path, from the children \<open>cs\<close> of the current
  level and the segments \<open>done\<close> passed so far. A segment that is already there is
  entered; one that names a property of \<^verbatim>\<open>Object.prototype\<close> creates nothing and
  yields \<^verbatim>\<open>undefined\<close> as the next level, on which the next segment, if there is one,
  raises a \<^verbatim>\<open>TypeError\<close>; any other segment gets a new node.
\<close>

fun insertPath ::
  "(string \<times> string) list \<Rightarrow> string list \<Rightarrow> string list \<Rightarrow> (string \<times> tree) list \<Rightarrow>
   error + (string \<times> tree) list" where
  "insertPath names done [] cs = Inr cs"
| "insertPath names done (currentPath # rest) cs =
     (case map_of cs currentPath of
        Some (TreeNode n t sub) \<Rightarrow>
          (case insertPath names (done @ [currentPath]) rest sub of
             Inl err \<Rightarrow> Inl err
           | Inr sub' \<Rightarrow> Inr (mapSet cs currentPath (TreeNode n t sub')))
      | None \<Rightarrow>
          if currentPath \<in> set objectPrototypeNames then
            (if rest = [] then Inr cs else Inl TypeError)
          else
            (case insertPath names (done @ [currentPath]) rest [] of
               Inl err \<Rightarrow> Inl err
             | Inr sub' \<Rightarrow>
                 Inr (cs @ [(currentPath,
                        TreeNode (mapGet names (joinWith sep (done @ [currentPath])))
                          currentPath sub')])))"

fun insertAll ::
  "(string \<times> string) list \<Rightarrow> (string \<times> tree) list \<Rightarrow> modules \<Rightarrow> error + (string \<times> tree) list" where
  "insertAll names tr [] = Inr tr"
| "insertAll names tr ((filePath, m) # rest) =
     (case insertPath names [] (pathSegments (relativePath m)) tr of
        Inl err \<Rightarrow> Inl err
      | Inr tr' \<Rightarrow> insertAll names tr' rest)"

definition convertSubgraphSources :: "generator \<Rightarrow> error + (string \<times> tree) list" where
  "convertSubgraphSources g = insertAll (namesHashMap g) [] (genModules g)"

text \<open>
  The edges of \<^verbatim>\<open>convertEdgeSources\<close>: \<^verbatim>\<open>from.node\<close>, \<^verbatim>\<open>from.text\<close>, \<^verbatim>\<open>to.node\<close> and
  \<^verbatim>\<open>to.text\<close>.
\<close>

record edge =
  fromNode :: string
  fromText :: string
  toNode :: string
  toText :: string

text \<open>The body of the inner loop, for one dependency of the module with identifier \<open>fromId\<close>.\<close>

definition addEdge ::
  "(string \<times> string) list \<Rightarrow> string \<Rightarrow> string \<Rightarrow> edge list \<Rightarrow> CodebaseDependency \<Rightarrow> edge list" where
  "addEdge names fromId fromLabel edges dep =
     (case resolved dep of
        None \<Rightarrow> edges
      | Some target \<Rightarrow>
          if target \<noteq> [] \<and> valid dep then
            (case mapGet names target of
               None \<Rightarrow> edges
             | Some toId \<Rightarrow>
                 if toId \<noteq> [] then
                   (if list_ex (\<lambda>ed. fromNode ed = fromId \<and> toNode ed = toId) edges then edges
                    else edges @ [\<lparr>fromNode = fromId, fromText = fromLabel,
                                   toNode = toId, toText = basename target\<rparr>])
                 else edges)
          else edges)"

text \<open>The body of the outer loop, for one entry of the module map.\<close>

definition addModuleEdges ::
  "(string \<times> string) list \<Rightarrow> edge list \<Rightarrow> string \<times> CodebaseModule \<Rightarrow> edge list" where
  "addModuleEdges names edges entry =
     (case entry of (filePath, m) \<Rightarrow>
        (case mapGet names filePath of
           None \<Rightarrow> edges
         | Some fromId \<Rightarrow>
             if fromId = [] then edges
             else foldl (addEdge names fromId (basename (relativePath m))) edges (dependencies m)))"

definition convertEdgeSources :: "generator \<Rightarrow> edge list" where
  "convertEdgeSources g = foldl (addModuleEdges (namesHashMap g)) [] (genModules g)"

text \<open>
  \<^verbatim>\<open>Object.keys(source)\<close>: the keys that are array indices (canonical decimal numbers
  up to \<open>2^32 - 2\<close>) come first, in ascending order, then the other keys in the order of
  their creation. \<open>orderedEntries\<close> lists the entries in that order.
\<close>

definition isDigit :: "char \<Rightarrow> bool" where
  "isDigit c = (let n = (of_char c :: nat) in 48 \<le> n \<and> n \<le> 57)"

definition decimalValue :: "string \<Rightarrow> int" where
  "decimalValue s = foldl (\<lambda>acc c. 10 * acc + (of_char c - 48)) 0 s"

definition isArrayIndex :: "string \<Rightarrow> bool" where
  "isArrayIndex s =
     (s \<noteq> [] \<and> list_all isDigit s \<and> (s = ''0'' \<or> hd s \<noteq> CHR ''0'') \<and>
      decimalValue s < 4294967295)"

definition orderedEntries :: "(string \<times> tree) list \<Rightarrow> (string \<times> tree) list" where
  "orderedEntries cs =
     sort_key (\<lambda>entry. decimalValue (fst entry)) (filter (\<lambda>entry. isArrayIndex (fst entry)) cs)
     @ filter (\<lambda>entry. \<not> isArrayIndex (fst entry)) cs"

text \<open>\<^verbatim>\<open>escapeMermaidText\<close>: four replacements in a row.\<close>

definition replaceChar :: "char \<Rightarrow> string \<Rightarrow> string \<Rightarrow> string" where
  "replaceChar c replacement s = concat (map (\<lambda>x. if x = c then replacement else [x]) s)"

definition escapeMermaidText :: "string \<Rightarrow> string" where
  "escapeMermaidText t =
     replaceChar newline '' ''
       (replaceChar CHR ''>'' ''#62;''
          (replaceChar CHR ''<'' ''#60;''
             (replaceChar CHR 0x22 ''#quot;'' t)))"

text \<open>\<^verbatim>\<open>renderNode\<close>; an identifier that is \<^verbatim>\<open>undefined\<close> is printed as that word.\<close>

definition renderNode :: "string option \<Rightarrow> string \<Rightarrow> string" where
  "renderNode nodeId t =
     (let escapedText = (if length t > 0 then escapeMermaidText t else '' '') in
      (case nodeId of None \<Rightarrow> ''undefined'' | Some n \<Rightarrow> n)
      @ [CHR ''['', CHR 0x22] @ escapedText @ [CHR 0x22, CHR '']''])"

lemma orderedEntries_set: "set (orderedEntries cs) = set cs"
  by (auto simp: orderedEntries_def)

text \<open>
  \<^verbatim>\<open>renderSubgraphs\<close>, and the function it maps over the keys, \<open>renderItem\<close>: a node
  whose children render to the empty string is a leaf, any other node a \<^verbatim>\<open>subgraph\<close>
  block.
\<close>

function renderSubgraphs :: "bool \<Rightarrow> (string \<times> tree) list \<Rightarrow> nat \<Rightarrow> string"
  and renderItem :: "bool \<Rightarrow> nat \<Rightarrow> string \<times> tree \<Rightarrow> string" where
  "renderSubgraphs mini src depth =
     joinWith [newline] (map (renderItem mini depth) (orderedEntries src))"
| "renderItem mini depth (name, TreeNode n t c) =
     (let indent = (if mini then [] else concat (replicate depth ''  ''));
          sub = renderSubgraphs mini c (depth + 1) in
      if sub = [] then indent @ renderNode n t
      else indent @ ''subgraph '' @ renderNode n t
           @ [newline] @ sub @ [newline] @ indent @ ''end'')"
  by pat_completeness auto
termination
proof (relation "measure (\<lambda>x. case x of
          Inl (mini, src, depth) \<Rightarrow> 2 * size_list (\<lambda>entry. size (snd entry)) src + 1
        | Inr (mini, depth, entry) \<Rightarrow> 2 * size (snd entry))")
  show "wf (measure (\<lambda>x. case x of
          Inl (mini, src, depth) \<Rightarrow> 2 * size_list (\<lambda>entry. size (snd entry)) src + 1
        | Inr (mini, depth, entry) \<Rightarrow> 2 * size (snd entry)))"
    by simp
next
  fix mini :: bool and src :: "(string \<times> tree) list" and depth :: nat and entry :: "string \<times> tree"
  assume "entry \<in> set (orderedEntries src)"
  then have "entry \<in> set src"
    by (simp add: orderedEntries_set)
  then have "size (snd entry) \<le> size_list (\<lambda>en. size (snd en)) src"
    by (induction src) auto
  then show "(Inr (mini, depth, entry), Inl (mini, src, depth)) \<in> measure (\<lambda>x. case x of
          Inl (mini, src, depth) \<Rightarrow> 2 * size_list (\<lambda>entry. size (snd entry)) src + 1
        | Inr (mini, depth, entry) \<Rightarrow> 2 * size (snd entry))"
    by simp
next
  fix mini :: bool and depth :: nat and name :: string and n :: "string option"
    and t :: string and c :: "(string \<times> tree) list"
  have "size_list (\<lambda>en. size (snd en)) c < size (TreeNode n t c)"
    by (induction c) auto
  then show "(Inl (mini, c, depth + 1), Inr (mini, depth, name, TreeNode n t c)) \<in> measure (\<lambda>x. case x of
          Inl (mini, src, depth) \<Rightarrow> 2 * size_list (\<lambda>entry. size (snd entry)) src + 1
        | Inr (mini, depth, entry) \<Rightarrow> 2 * size (snd entry))"
    by simp
qed

text \<open>\<^verbatim>\<open>renderEdges\<close>\<close>

definition renderEdges :: "edge list \<Rightarrow> string" where
  "renderEdges edges = joinWith [newline] (map (\<lambda>ed. fromNode ed @ ''-->'' @ toNode ed) edges)"

text \<open>\<^verbatim>\<open>renderClassDefinitions\<close>: five lines.\<close>

definition renderClassDefinitions :: string where
  "renderClassDefinitions =
     joinWith [newline]
       [''classDef coreStyle fill:#90EE90,stroke:#00AA00,stroke-width:2px,color:#000'',
        ''classDef reportStyle fill:#FFB6C1,stroke:#CC00CC,stroke-width:2px,color:#000'',
        ''classDef configStyle fill:#87CEEB,stroke:#0066FF,stroke-width:2px,color:#000'',
        ''classDef toolStyle fill:#FFD700,stroke:#FF6600,stroke-width:2px,color:#000'',
        ''classDef entryStyle fill:#F5F5F5,stroke:#666666,stroke-width:2px,color:#000'']"

fun getNodeStyleClass :: "FileCategory \<Rightarrow> string" where
  "getNodeStyleClass Core = ''coreStyle''"
| "getNodeStyleClass Report = ''reportStyle''"
| "getNodeStyleClass Config = ''configStyle''"
| "getNodeStyleClass Tool = ''toolStyle''"
| "getNodeStyleClass Entry = ''entryStyle''"

text \<open>\<^verbatim>\<open>renderNodeStyles\<close>: one line for every entry of \<^verbatim>\<open>nodeIdToModule\<close>.\<close>

definition renderNodeStyles :: "generator \<Rightarrow> string" where
  "renderNodeStyles g =
     foldl (\<lambda>styles (nodeId, m).
              styles @ [newline] @ ''class '' @ nodeId @ '' '' @ getNodeStyleClass (fileCategory m))
       [] (nodeIdToModule g)"

text \<open>
  \<^verbatim>\<open>renderEdgeStyles\<close>: the loop carries the text so far and \<^verbatim>\<open>edgeIndex\<close>, which goes
  up by one for every edge.
\<close>

definition edgeStyleStep ::
  "(string \<times> CodebaseModule) list \<Rightarrow> string \<times> nat \<Rightarrow> edge \<Rightarrow> string \<times> nat" where
  "edgeStyleStep idToModule st ed =
     (case st of (styles, edgeIndex) \<Rightarrow>
        (case (mapGet idToModule (fromNode ed), mapGet idToModule (toNode ed)) of
           (Some fromModule, Some toModule) \<Rightarrow>
             (let edgeType = classifyEdge (fileCategory fromModule) (fileCategory toModule)
                               (relativePath fromModule) (relativePath toModule);
                  edgeColor = getEdgeColor edgeType;
                  edgeStyle = getEdgeStyle edgeType in
              if edgeStyle = Dashed then
                (styles @ [newline] @ ''linkStyle '' @ toStringNat edgeIndex @ '' stroke:'' @ edgeColor
                   @ '',stroke-width:2px,stroke-dasharray: 5 5'', edgeIndex + 1)
              else
                (styles @ [newline] @ ''linkStyle '' @ toStringNat edgeIndex @ '' stroke:'' @ edgeColor
                   @ '',stroke-width:2px'', edgeIndex + 1))
         | _ \<Rightarrow>
             (styles @ [newline] @ ''linkStyle '' @ toStringNat edgeIndex
                @ '' stroke:#0066CC,stroke-width:2px'', edgeIndex + 1)))"

definition renderEdgeStyles :: "generator \<Rightarrow> edge list \<Rightarrow> string" where
  "renderEdgeStyles g edges = fst (foldl (edgeStyleStep (nodeIdToModule g)) ([], 0) edges)"

text \<open>
  \<^verbatim>\<open>generate\<close>: the text, or the error that \<^verbatim>\<open>convertSubgraphSources\<close> raised, and the
  generator as the call leaves it.
\<close>

definition generate :: "generator \<Rightarrow> (error + string) \<times> generator" where
  "generate g0 =
     (let g = hashModuleNames g0 in
      case convertSubgraphSources g of
        Inl err \<Rightarrow> (Inl err, g)
      | Inr subgraphs \<Rightarrow>
          (let edges = convertEdgeSources g;
               classDefs = renderClassDefinitions;
               nodeStyles = renderNodeStyles g;
               edgeStyles = renderEdgeStyles g edges in
           (Inr (''flowchart LR'' @ [newline, newline]
                 @ classDefs @ [newline]
                 @ renderSubgraphs (minify g) subgraphs 0 @ [newline]
                 @ renderEdges edges @ [newline]
                 @ nodeStyles @ [newline]
                 @ edgeStyles), g)))"

section \<open>CodebaseGraphBuilder\<close>

record builder =
  builderModules :: modules
  builderWorkspaceRoot :: string

text \<open>
  \<^verbatim>\<open>generateMermaid\<close>: a new generator for every call, with the flag set. The builder
  holds the module map the generator worked on.
\<close>

definition generateMermaid :: "builder \<Rightarrow> (error + string) \<times> builder" where
  "generateMermaid b =
     (case generate (newGenerator (builderModules b) (builderWorkspaceRoot b) True) of
        (res, g) \<Rightarrow> (res, b\<lparr>builderModules := genModules g\<rparr>))"

section \<open>Notions used to state the properties\<close>

text \<open>
  The definitions of this section are not part of the program: they say in the words of
  the specification what the program is compared with.

  The two candidate lists of the JS/TS resolver for a base path, and the base path of an
  import.
\<close>

definition resolvedBaseOf :: "env \<Rightarrow> string \<Rightarrow> string \<Rightarrow> string \<Rightarrow> string" where
  "resolvedBaseOf e root m f =
     (if startsWith m ''/'' then pathJoin root m else pathResolve2 (cwd e) (dirname f) m)"

definition fileCandidates :: "string \<Rightarrow> string list" where
  "fileCandidates base =
     [base, base @ ''.js'', base @ ''.ts'', base @ ''.jsx'', base @ ''.tsx'', base @ ''.mjs'',
      base @ ''.cjs'']"

definition indexCandidates :: "string \<Rightarrow> string list" where
  "indexCandidates base =
     [pathJoin base ''index.js'', pathJoin base ''index.ts'', pathJoin base ''index.jsx'',
      pathJoin base ''index.tsx'']"

text \<open>
  An edge is identified by its pair of node identifiers. \<open>keepFirst\<close> keeps, of the
  elements with the same key, the first one. \<open>edgeCandidates\<close> lists, in map order and
  for every module with an identifier, one edge for every dependency that is resolved,
  valid and whose target has an identifier.
\<close>

definition edgeKey :: "edge \<Rightarrow> string \<times> string" where
  "edgeKey ed = (fromNode ed, toNode ed)"

fun keepFirst :: "('a \<Rightarrow> 'k) \<Rightarrow> 'a list \<Rightarrow> 'a list" where
  "keepFirst key [] = []"
| "keepFirst key (x # xs) = x # keepFirst key (filter (\<lambda>y. key y \<noteq> key x) xs)"

definition dependencyEdges ::
  "(string \<times> string) list \<Rightarrow> string \<Rightarrow> string \<Rightarrow> CodebaseDependency \<Rightarrow> edge list" where
  "dependencyEdges names fromId fromLabel dep =
     (case resolved dep of
        None \<Rightarrow> []
      | Some target \<Rightarrow>
          (case mapGet names target of
             None \<Rightarrow> []
           | Some toId \<Rightarrow>
               if target \<noteq> [] \<and> valid dep \<and> toId \<noteq> []
               then [\<lparr>fromNode = fromId, fromText = fromLabel, toNode = toId,
                      toText = basename target\<rparr>]
               else []))"

definition moduleEdges :: "(string \<times> string) list \<Rightarrow> string \<times> CodebaseModule \<Rightarrow> edge list" where
  "moduleEdges names entry =
     (case mapGet names (fst entry) of
        None \<Rightarrow> []
      | Some fromId \<Rightarrow>
          if fromId = [] then []
          else concat (map (dependencyEdges names fromId (basename (relativePath (snd entry))))
                         (dependencies (snd entry))))"

definition edgeCandidates :: "(string \<times> string) list \<Rightarrow> modules \<Rightarrow> edge list" where
  "edgeCandidates names ms = concat (map (moduleEdges names) ms)"

definition pushNew :: "('a \<Rightarrow> 'k) \<Rightarrow> 'a list \<Rightarrow> 'a \<Rightarrow> 'a list" where
  "pushNew key acc x = (if key x \<in> key ` set acc then acc else acc @ [x])"

text \<open>
  The style of an edge, and the style directive for the edge with a given index, without
  the line break before it.
\<close>

definition edgeStyleOf :: "(string \<times> CodebaseModule) list \<Rightarrow> edge \<Rightarrow> string" where
  "edgeStyleOf idToModule ed =
     (case (mapGet idToModule (fromNode ed), mapGet idToModule (toNode ed)) of
        (Some fromModule, Some toModule) \<Rightarrow>
          (let edgeType = classifyEdge (fileCategory fromModule) (fileCategory toModule)
                            (relativePath fromModule) (relativePath toModule) in
           ''stroke:'' @ getEdgeColor edgeType @ '',stroke-width:2px'' @
           (if getEdgeStyle edgeType = Dashed then '',stroke-dasharray: 5 5'' else []))
      | _ \<Rightarrow> ''stroke:#0066CC,stroke-width:2px'')"

definition styleDirective :: "(string \<times> CodebaseModule) list \<Rightarrow> nat \<times> edge \<Rightarrow> string" where
  "styleDirective idToModule ied =
     ''linkStyle '' @ toStringNat (fst ied) @ '' '' @ edgeStyleOf idToModule (snd ied)"

text \<open>
  What the linking pass is compared with. A module map is \<open>analyzed\<close> when its keys are
  distinct and every entry is what \<^verbatim>\<open>analyzeFile\<close> returns for its key. \<open>backlinks\<close>
  lists, in map order, the sources of the dependencies that resolve to a target, and
  \<open>addBacklinks\<close> adds to every module the sources given for its key, each once.
\<close>

definition analyzed :: "env \<Rightarrow> string \<Rightarrow> modules \<Rightarrow> bool" where
  "analyzed e root ms =
     (distinct (map fst ms) \<and> (\<forall>entry \<in> set ms. analyzeFile e root (fst entry) = Some (snd entry)))"

definition depBacklinks :: "string \<Rightarrow> string \<Rightarrow> CodebaseDependency \<Rightarrow> string list" where
  "depBacklinks src target dep = (if resolved dep = Some target \<and> target \<noteq> [] then [src] else [])"

definition backlinks :: "modules \<Rightarrow> string \<Rightarrow> string list" where
  "backlinks ms target =
     concat (map (\<lambda>entry. concat (map (depBacklinks (fst entry) target) (dependencies (snd entry)))) ms)"

definition addBacklinks :: "(string \<Rightarrow> string list) \<Rightarrow> modules \<Rightarrow> modules" where
  "addBacklinks new ms =
     map (\<lambda>entry. (fst entry,
            (snd entry)\<lparr>dependents := foldl setAdd (dependents (snd entry)) (new (fst entry))\<rparr>)) ms"

text \<open>The relative path of a module and the prefixes of it that name its folders.\<close>

definition pathsOf :: "string \<times> CodebaseModule \<Rightarrow> string set" where
  "pathsOf entry =
     insert (relativePath (snd entry)) (set (pathPrefixes (pathSegments (relativePath (snd entry)))))"

text \<open>
  An import path is external when it begins neither with \<^verbatim>\<open>.\<close> nor with \<^verbatim>\<open>/\<close>.
  \<open>withoutExternal\<close> drops from every module of a map the external dependencies for
  which no path was recorded.
\<close>

definition isExternal :: "string \<Rightarrow> bool" where
  "isExternal modulePath = (\<not> startsWith modulePath ''.'' \<and> \<not> startsWith modulePath ''/'')"

definition keptDependency :: "CodebaseDependency \<Rightarrow> bool" where
  "keptDependency dep = (\<not> (isExternal (module dep) \<and> resolved dep = None))"

definition dropExternal :: "CodebaseModule \<Rightarrow> CodebaseModule" where
  "dropExternal m = m\<lparr>dependencies := filter keptDependency (dependencies m)\<rparr>"

definition withoutExternal :: "modules \<Rightarrow> modules" where
  "withoutExternal ms = map (\<lambda>entry. (fst entry, dropExternal (snd entry))) ms"

text \<open>
  The lines of the diagram text. An edge statement is a line that holds the arrow
  \<^verbatim>\<open>-->\<close>, and \<open>edgeLine\<close> is the statement printed for an edge; a style directive is a
  line that begins with \<^verbatim>\<open>linkStyle\<close> and a space.
\<close>

definition edgeLine :: "edge \<Rightarrow> string" where
  "edgeLine ed = fromNode ed @ ''-->'' @ toNode ed"

definition isEdgeLine :: "string \<Rightarrow> bool" where
  "isEdgeLine l = strIncludes l ''-->''"

definition isLinkStyle :: "string \<Rightarrow> bool" where
  "isLinkStyle l = startsWith l ''linkStyle ''"

text \<open>
  A line is plain when it is neither: it holds no \<^verbatim>\<open>>\<close> and is no style directive. An
  identifier is minified when it begins with \<^verbatim>\<open>N\<close> and holds neither a line break nor
  \<^verbatim>\<open>>\<close>; a tree is well named when every identifier in it is minified.
\<close>

definition plainLine :: "string \<Rightarrow> bool" where
  "plainLine l = (CHR ''>'' \<notin> set l \<and> \<not> isLinkStyle l)"

definition plainText :: "string \<Rightarrow> bool" where
  "plainText s = (\<forall>l \<in> set (splitChar newline s). plainLine l)"

definition minifiedId :: "string \<Rightarrow> bool" where
  "minifiedId i = (startsWith i ''N'' \<and> newline \<notin> set i \<and> CHR ''>'' \<notin> set i)"

inductive wellNamed :: "tree \<Rightarrow> bool" where
  "(\<And>i. n = Some i \<Longrightarrow> minifiedId i) \<Longrightarrow> (\<And>entry. entry \<in> set c \<Longrightarrow> wellNamed (snd entry)) \<Longrightarrow>
   wellNamed (TreeNode n t c)"

text \<open>The first lines of every diagram.\<close>

definition diagramHeader :: string where
  "diagramHeader = ''flowchart LR'' @ [newline, newline] @ renderClassDefinitions"

section \<open>Example workspaces\<close>

text \<open>
  A package whose module \<^verbatim>\<open>mod.py\<close> imports from its sibling \<^verbatim>\<open>utils.py\<close>.
\<close>

definition pkgEnv :: env where
  "pkgEnv =
     \<lparr>cwd = ''/'',
      fsroot = Directory True
        [(''pkg'', Directory True
            [(''mod.py'', RegularFile (Some ''from utils import helper'')),
             (''utils.py'', RegularFile (Some ''def helper(): pass''))])]\<rparr>"

text \<open>
  A workspace in which \<^verbatim>\<open>x.ts\<close> and \<^verbatim>\<open>y.ts\<close> import \<^verbatim>\<open>./shared/lib\<close>, a directory with
  an \<^verbatim>\<open>index.ts\<close>.
\<close>

definition libEnv :: env where
  "libEnv =
     \<lparr>cwd = ''/'',
      fsroot = Directory True
        [(''ws'', Directory True
            [(''x.ts'', RegularFile (Some ''import lib from \"./shared/lib\"'')),
             (''y.ts'', RegularFile (Some ''import lib from \"./shared/lib\"'')),
             (''shared'', Directory True
                [(''lib'', Directory True [(''index.ts'', RegularFile (Some []))])])])]\<rparr>"

text \<open>
  A workspace in which \<^verbatim>\<open>a.ts\<close> imports and requires \<^verbatim>\<open>./b\<close>, imports the package
  \<^verbatim>\<open>lodash\<close> and imports \<^verbatim>\<open>./gone\<close>, a file that exists and cannot be read; and the
  module map the analysis of its directory \<^verbatim>\<open>src\<close> gives.
\<close>

definition demoEnv :: env where
  "demoEnv =
     \<lparr>cwd = ''/'',
      fsroot = Directory True
        [(''ws'', Directory True
            [(''src'', Directory True
                [(''a.ts'', RegularFile (Some
                    (''import {x} from \"./b\"; import lodash from \"lodash\"; '' @
                     ''import g from \"./gone\"; const y = require(\"./b\")''))),
                 (''b.ts'', RegularFile (Some ''export const x = 1'')),
                 (''gone.ts'', RegularFile None)])])]\<rparr>"

definition demoModules :: modules where
  "demoModules =
     [(''/ws/src/a.ts'',
       \<lparr>source = ''/ws/src/a.ts'', relativePath = ''src/a.ts'',
          fileName = ''a.ts'', languageId = ''typescript'',
          fileCategory = Entry,
          dependencies =
            [\<lparr>module = ''./b'', resolved = Some ''/ws/src/b.ts'',
                dependencyTypes = [''import''], valid = True\<rparr>,
             \<lparr>module = ''lodash'', resolved = None,
                dependencyTypes = [''import''], valid = False\<rparr>,
             \<lparr>module = ''./gone'', resolved = Some ''/ws/src/gone.ts'',
                dependencyTypes = [''import''], valid = True\<rparr>,
             \<lparr>module = ''./b'', resolved = Some ''/ws/src/b.ts'',
                dependencyTypes = [''require''], valid = True\<rparr>],
          dependents = [], functionNames = [''require''], exports = []\<rparr>),
      (''/ws/src/b.ts'',
       \<lparr>source = ''/ws/src/b.ts'', relativePath = ''src/b.ts'',
          fileName = ''b.ts'', languageId = ''typescript'',
          fileCategory = Entry, dependencies = [],
          dependents = [''/ws/src/a.ts''], functionNames = [],
          exports = [''x'']\<rparr>)]"

definition demoGenerator :: generator where
  "demoGenerator = hashModuleNames (newGenerator demoModules ''/ws'' True)"

text \<open>What \<^verbatim>\<open>generate\<close> prints before the edges, and the text it gives for the example.\<close>

definition textBeforeEdges :: "bool \<Rightarrow> (string \<times> tree) list \<Rightarrow> string" where
  "textBeforeEdges mini subgraphs =
     ''flowchart LR'' @ [newline, newline] @ renderClassDefinitions @ [newline]
     @ renderSubgraphs mini subgraphs 0 @ [newline]"

definition demoText :: string where
  "demoText =
     joinWith [newline]
       [''flowchart LR'',
        [],
        ''classDef coreStyle fill:#90EE90,stroke:#00AA00,stroke-width:2px,color:#000'',
        ''classDef reportStyle fill:#FFB6C1,stroke:#CC00CC,stroke-width:2px,color:#000'',
        ''classDef configStyle fill:#87CEEB,stroke:#0066FF,stroke-width:2px,color:#000'',
        ''classDef toolStyle fill:#FFD700,stroke:#FF6600,stroke-width:2px,color:#000'',
        ''classDef entryStyle fill:#F5F5F5,stroke:#666666,stroke-width:2px,color:#000'',
        ''subgraph N0[\"src\"]'',
        ''N1[\"a.ts\"]'',
        ''N2[\"b.ts\"]'',
        ''end'',
        ''N1-->N2'',
        [],
        ''class N1 entryStyle'',
        ''class N2 entryStyle'',
        [],
        ''linkStyle 0 stroke:#0066CC,stroke-width:2px'']"

text \<open>
  A module map with four edges of three styles: \<^verbatim>\<open>app.ts\<close> imports \<^verbatim>\<open>core/extract\<close>
  and \<^verbatim>\<open>config/settings\<close> and requires \<^verbatim>\<open>core/extract\<close> again, and \<^verbatim>\<open>extract.ts\<close>
  imports \<^verbatim>\<open>schema\<close> and \<^verbatim>\<open>config/settings\<close>.
\<close>

definition styleModules :: modules where
  "styleModules =
     [(''/ws/src/app.ts'',
       \<lparr>source = ''/ws/src/app.ts'', relativePath = ''src/app.ts'',
          fileName = ''app.ts'', languageId = ''typescript'',
          fileCategory = Entry,
          dependencies =
            [\<lparr>module = ''./core/extract'', resolved = Some ''/ws/src/core/extract.ts'',
                dependencyTypes = [''import''], valid = True\<rparr>,
             \<lparr>module = ''./config/settings'', resolved = Some ''/ws/src/config/settings.ts'',
                dependencyTypes = [''import''], valid = True\<rparr>,
             \<lparr>module = ''./core/extract'', resolved = Some ''/ws/src/core/extract.ts'',
                dependencyTypes = [''require''], valid = True\<rparr>],
          dependents = [], functionNames = [], exports = []\<rparr>),
      (''/ws/src/core/extract.ts'',
       \<lparr>source = ''/ws/src/core/extract.ts'', relativePath = ''src/core/extract.ts'',
          fileName = ''extract.ts'', languageId = ''typescript'',
          fileCategory = Core,
          dependencies =
            [\<lparr>module = ''./schema'', resolved = Some ''/ws/src/core/schema.ts'',
                dependencyTypes = [''import''], valid = True\<rparr>,
             \<lparr>module = ''../config/settings'', resolved = Some ''/ws/src/config/settings.ts'',
                dependencyTypes = [''import''], valid = True\<rparr>],
          dependents = [''/ws/src/app.ts''], functionNames = [], exports = []\<rparr>),
      (''/ws/src/core/schema.ts'',
       \<lparr>source = ''/ws/src/core/schema.ts'', relativePath = ''src/core/schema.ts'',
          fileName = ''schema.ts'', languageId = ''typescript'',
          fileCategory = Core, dependencies = [],
          dependents = [''/ws/src/core/extract.ts''], functionNames = [], exports = []\<rparr>),
      (''/ws/src/config/settings.ts'',
       \<lparr>source = ''/ws/src/config/settings.ts'', relativePath = ''src/config/settings.ts'',
          fileName = ''settings.ts'', languageId = ''typescript'',
          fileCategory = Config, dependencies = [],
          dependents = [''/ws/src/app.ts'', ''/ws/src/core/extract.ts''],
          functionNames = [], exports = []\<rparr>)]"

definition styleGenerator :: generator where
  "styleGenerator = hashModuleNames (newGenerator styleModules ''/ws'' True)"

definition styleText :: string where
  "styleText =
     joinWith [newline]
       [''flowchart LR'',
        [],
        ''classDef coreStyle fill:#90EE90,stroke:#00AA00,stroke-width:2px,color:#000'',
        ''classDef reportStyle fill:#FFB6C1,stroke:#CC00CC,stroke-width:2px,color:#000'',
        ''classDef configStyle fill:#87CEEB,stroke:#0066FF,stroke-width:2px,color:#000'',
        ''classDef toolStyle fill:#FFD700,stroke:#FF6600,stroke-width:2px,color:#000'',
        ''classDef entryStyle fill:#F5F5F5,stroke:#666666,stroke-width:2px,color:#000'',
        ''subgraph N0[\"src\"]'',
        ''N1[\"app.ts\"]'',
        ''subgraph N2[\"core\"]'',
        ''N3[\"extract.ts\"]'',
        ''N4[\"schema.ts\"]'',
        ''end'',
        ''subgraph N5[\"config\"]'',
        ''N6[\"settings.ts\"]'',
        ''end'',
        ''end'',
        ''N1-->N3'',
        ''N1-->N6'',
        ''N3-->N4'',
        ''N3-->N6'',
        [],
        ''class N1 entryStyle'',
        ''class N3 coreStyle'',
        ''class N4 coreStyle'',
        ''class N6 configStyle'',
        [],
        ''linkStyle 0 stroke:#0066CC,stroke-width:2px'',
        ''linkStyle 1 stroke:#0099CC,stroke-width:2px,stroke-dasharray: 5 5'',
        ''linkStyle 2 stroke:#00AA00,stroke-width:2px'',
        ''linkStyle 3 stroke:#0099CC,stroke-width:2px,stroke-dasharray: 5 5'']"

section \<open>Properties of the classifier\<close>

lemma startsWith_append: "startsWith s (a @ b) \<Longrightarrow> startsWith s a"
  by (induction s a rule: startsWith.induct) auto

lemma strIncludes_append: "strIncludes s (a @ b) \<Longrightarrow> strIncludes s a"
  by (induction s) (auto dest: startsWith_append)

lemma strIncludes_options_compatible:
  "strIncludes s ''options-compatible'' \<Longrightarrow> strIncludes s ''options''"
  using strIncludes_append [of s "''options''" "''-compatible''"] by simp

lemma classifyFile_rules:
  "classifyFile p f =
     (let lp = toLowerCase p; lf = toLowerCase f in
      if entryRule lp lf then Entry
      else if reportRule lp lf then Report
      else if toolRule lp lf then Tool
      else if configRule lp lf then Config
      else if coreRule lp lf then Core
      else Entry)"
  unfolding classifyFile_def entryRule_def reportRule_def toolRule_def toolRuleOther_def
    configRule_def coreRule_def Let_def
  by (simp only: disj_assoc)

text \<open>
  Claim C9, as stated, fails: \<^verbatim>\<open>.cjs\<close> is a supported extension, and
  \<^verbatim>\<open>index.cjs\<close> under a \<^verbatim>\<open>/report/\<close> directory is classified report, not entry.
\<close>

theorem classifyFile_index_cjs_counterexample:
  "''.cjs'' \<in> set supportedExtensions \<and>
   classifyFile ''src/report/index.cjs'' ''index.cjs'' = Report"
  by code_simp

text \<open>
  Claim C9, amended: the rules are evaluated in the order entry, report, tool, config,
  core, the first match wins and the default is entry; the entry rule matches the file
  names \<^verbatim>\<open>index.ts\<close>, \<^verbatim>\<open>index.js\<close>, \<^verbatim>\<open>index.tsx\<close>, \<^verbatim>\<open>index.jsx\<close>, \<^verbatim>\<open>index.mjs\<close> and
  \<^verbatim>\<open>__init__.py\<close> (compared in lower case) and the paths containing \<^verbatim>\<open>/main/\<close> or
  \<^verbatim>\<open>/entry/\<close>, so for these \<open>classifyFile\<close> returns entry whatever the relative path.
\<close>

theorem classifyFile_entry_rule:
  "classifyFile p f =
     (let lp = toLowerCase p; lf = toLowerCase f in
      if entryRule lp lf then Entry
      else if reportRule lp lf then Report
      else if toolRule lp lf then Tool
      else if configRule lp lf then Config
      else if coreRule lp lf then Core
      else Entry) \<and>
   (toLowerCase f \<in> {''index.ts'', ''index.js'', ''index.tsx'', ''index.jsx'', ''index.mjs'',
        ''__init__.py''} \<or>
    strIncludes (toLowerCase p) ''/main/'' \<or> strIncludes (toLowerCase p) ''/entry/''
    \<longrightarrow> entryRule (toLowerCase p) (toLowerCase f) \<and> classifyFile p f = Entry)"
proof -
  have "entryRule (toLowerCase p) (toLowerCase f) \<Longrightarrow> classifyFile p f = Entry"
    by (simp add: classifyFile_rules)
  moreover have "toLowerCase f \<in> {''index.ts'', ''index.js'', ''index.tsx'', ''index.jsx'',
        ''index.mjs'', ''__init__.py''} \<or>
    strIncludes (toLowerCase p) ''/main/'' \<or> strIncludes (toLowerCase p) ''/entry/''
    \<Longrightarrow> entryRule (toLowerCase p) (toLowerCase f)"
    unfolding entryRule_def by blast
  ultimately show ?thesis
    using classifyFile_rules [of p f] by blast
qed

theorem classifyFile_entry_rule_witness:
  "classifyFile ''src/report/Index.TS'' ''Index.TS'' = Entry"
proof -
  have h: "toLowerCase ''Index.TS'' \<in> {''index.ts'', ''index.js'', ''index.tsx'',
      ''index.jsx'', ''index.mjs'', ''__init__.py''} \<or>
    strIncludes (toLowerCase ''src/report/Index.TS'') ''/main/'' \<or>
    strIncludes (toLowerCase ''src/report/Index.TS'') ''/entry/''"
    by code_simp
  from classifyFile_entry_rule [of "''src/report/Index.TS''" "''Index.TS''"] h
  show ?thesis by blast
qed

text \<open>
  Claim C10: whatever the relative path, a file name whose lower-cased form contains
  \<^verbatim>\<open>options\<close> (so also one containing \<^verbatim>\<open>options-compatible\<close>) is classified entry,
  since the entry rule is evaluated first; and whenever \<open>classifyFile\<close> returns tool, one
  of the other tests of the tool rule holds and the \<^verbatim>\<open>options-compatible\<close> test does not,
  so that test never decides.
\<close>

theorem classifyFile_options_entry:
  "(strIncludes (toLowerCase f) ''options'' \<longrightarrow> classifyFile p f = Entry) \<and>
   (strIncludes (toLowerCase f) ''options-compatible'' \<longrightarrow> classifyFile p f = Entry) \<and>
   (classifyFile p f = Tool \<longrightarrow>
      toolRuleOther (toLowerCase p) (toLowerCase f) \<and>
      \<not> strIncludes (toLowerCase f) ''options-compatible'')"
proof -
  have a: "strIncludes (toLowerCase f) ''options'' \<Longrightarrow> classifyFile p f = Entry"
    by (simp add: classifyFile_rules entryRule_def)
  have b: "strIncludes (toLowerCase f) ''options-compatible'' \<Longrightarrow> classifyFile p f = Entry"
    using a strIncludes_options_compatible by blast
  have c: "classifyFile p f = Tool \<Longrightarrow> toolRule (toLowerCase p) (toLowerCase f)"
    by (simp add: classifyFile_rules Let_def split: if_splits)
  have d: "classifyFile p f = Tool \<Longrightarrow> \<not> strIncludes (toLowerCase f) ''options-compatible''"
    using b by auto
  from a b c d show ?thesis unfolding toolRule_def by blast
qed

theorem classifyFile_options_entry_witness:
  "classifyFile ''src/lib/Options-Compatible.ts'' ''Options-Compatible.ts'' = Entry \<and>
   classifyFile ''pkg/bin/run.ts'' ''run.ts'' = Tool \<and>
   toolRuleOther (toLowerCase ''pkg/bin/run.ts'') (toLowerCase ''run.ts'')"
proof -
  have h1: "strIncludes (toLowerCase ''Options-Compatible.ts'') ''options-compatible''"
    by code_simp
  have h2: "classifyFile ''pkg/bin/run.ts'' ''run.ts'' = Tool"
    by code_simp
  from classifyFile_options_entry [of "''Options-Compatible.ts''" "''src/lib/Options-Compatible.ts''"] h1
  have "classifyFile ''src/lib/Options-Compatible.ts'' ''Options-Compatible.ts'' = Entry" by blast
  moreover from classifyFile_options_entry [of "''run.ts''" "''pkg/bin/run.ts''"] h2
  have "toolRuleOther (toLowerCase ''pkg/bin/run.ts'') (toLowerCase ''run.ts'')" by blast
  ultimately show ?thesis using h2 by blast
qed

section \<open>Properties of the resolvers\<close>

lemma resolvePythonModule_no_separator:
  "\<not> strIncludes m ''/'' \<Longrightarrow> \<not> strIncludes m backslash \<Longrightarrow>
   resolvePythonModule e root m f = (None, [])"
  by (simp add: resolvePythonModule_def)

lemma pythonImportMatches_example:
  "pythonImportMatches ''from utils import helper'' = [''utils'']"
  by code_simp

text \<open>
  Claim C1 says that \<^verbatim>\<open>from utils import helper\<close> in \<^verbatim>\<open>pkg/mod.py\<close> resolves to
  \<^verbatim>\<open>pkg/utils.py\<close> when that file exists. The code does not do that: whatever the file
  system, the workspace root and the importing file, the statement yields one dependency
  on \<^verbatim>\<open>utils\<close> that is unresolved and invalid, since \<^verbatim>\<open>resolvePythonModule\<close> gives up on
  every name without a path separator; so also in the package \<open>pkgEnv\<close>, where
  \<^verbatim>\<open>/pkg/utils.py\<close> is a regular file.
\<close>

theorem python_import_unresolved:
  "extractDependencies e root ''from utils import helper'' file ''python'' =
     [\<lparr>module = ''utils'', resolved = None, dependencyTypes = [''import''], valid = False\<rparr>] \<and>
   statIsFile pkgEnv ''/pkg/utils.py'' \<and>
   map_option dependencies (analyzeFile pkgEnv ''/pkg'' ''/pkg/mod.py'') =
     Some [\<lparr>module = ''utils'', resolved = None, dependencyTypes = [''import''], valid = False\<rparr>]"
proof -
  have m: "hd (splitChar CHR ''.'' (hd (splitChar CHR '' '' ''utils''))) = ''utils''"
    by code_simp
  have r: "resolvePythonModule e root ''utils'' file = (None, [])"
    by (rule resolvePythonModule_no_separator; code_simp)
  have a: "extractDependencies e root ''from utils import helper'' file ''python'' =
     [\<lparr>module = ''utils'', resolved = None, dependencyTypes = [''import''], valid = False\<rparr>]"
    by (simp add: extractDependencies_def pythonImportMatches_example m r)
  have b: "statIsFile pkgEnv ''/pkg/utils.py''"
    by code_simp
  have c: "map_option dependencies (analyzeFile pkgEnv ''/pkg'' ''/pkg/mod.py'') =
     Some [\<lparr>module = ''utils'', resolved = None, dependencyTypes = [''import''], valid = False\<rparr>]"
    by code_simp
  from a b c show ?thesis by blast
qed

lemma statIsFile_exists: "statIsFile e p \<Longrightarrow> existsSync e p"
  by (auto simp: statIsFile_def existsSync_def split: option.splits)

lemma tryExtensions_find:
  "fst (tryExtensions e base exts) = find (statIsFile e) (map (\<lambda>ext. base @ ext) exts)"
  by (induction exts) (auto simp: Let_def statIsFile_exists split: prod.splits)

lemma tryExtensions_probes:
  "snd (tryExtensions e base exts) =
     (let cands = map (\<lambda>ext. base @ ext) exts in
      takeWhile (\<lambda>p. \<not> statIsFile e p) cands @
      (case find (statIsFile e) cands of Some p \<Rightarrow> [p] | None \<Rightarrow> []))"
  by (induction exts) (auto simp: Let_def statIsFile_exists split: prod.splits)

lemma tryIndexFiles_find:
  "fst (tryIndexFiles e base idx) = find (existsSync e) (map (pathJoin base) idx)"
  by (induction idx) (auto simp: Let_def split: prod.splits)

lemma tryIndexFiles_probes:
  "snd (tryIndexFiles e base idx) =
     (let cands = map (pathJoin base) idx in
      takeWhile (\<lambda>p. \<not> existsSync e p) cands @
      (case find (existsSync e) cands of Some p \<Rightarrow> [p] | None \<Rightarrow> []))"
  by (induction idx) (auto simp: Let_def split: prod.splits)

lemma resolveModulePath_relative:
  assumes m: "startsWith m ''.'' \<or> startsWith m ''/''"
    and base: "base = resolvedBaseOf e root m f"
  shows "fst (resolveModulePath e root m f) =
     (case find (statIsFile e) (fileCandidates base) of
        Some p \<Rightarrow> Some p
      | None \<Rightarrow> find (existsSync e) (indexCandidates base)) \<and>
   snd (resolveModulePath e root m f) =
     (case find (statIsFile e) (fileCandidates base) of
        Some p \<Rightarrow> takeWhile (\<lambda>p. \<not> statIsFile e p) (fileCandidates base) @ [p]
      | None \<Rightarrow>
          fileCandidates base @
          takeWhile (\<lambda>p. \<not> existsSync e p) (indexCandidates base) @
          (case find (existsSync e) (indexCandidates base) of Some p \<Rightarrow> [p] | None \<Rightarrow> []))"
proof -
  have fc: "map (\<lambda>ext. base @ ext) extensions = fileCandidates base"
    by (simp add: extensions_def fileCandidates_def)
  have ic: "map (pathJoin base) indexExtensions = indexCandidates base"
    by (simp add: indexExtensions_def indexCandidates_def)
  have f1: "fst (tryExtensions e base extensions) = find (statIsFile e) (fileCandidates base)"
    using tryExtensions_find [of e base extensions] by (simp only: fc)
  have f2: "snd (tryExtensions e base extensions) =
      takeWhile (\<lambda>p. \<not> statIsFile e p) (fileCandidates base) @
      (case find (statIsFile e) (fileCandidates base) of Some p \<Rightarrow> [p] | None \<Rightarrow> [])"
    using tryExtensions_probes [of e base extensions] by (simp only: fc Let_def)
  have i1: "fst (tryIndexFiles e base indexExtensions) = find (existsSync e) (indexCandidates base)"
    using tryIndexFiles_find [of e base indexExtensions] by (simp only: ic)
  have i2: "snd (tryIndexFiles e base indexExtensions) =
      takeWhile (\<lambda>p. \<not> existsSync e p) (indexCandidates base) @
      (case find (existsSync e) (indexCandidates base) of Some p \<Rightarrow> [p] | None \<Rightarrow> [])"
    using tryIndexFiles_probes [of e base indexExtensions] by (simp only: ic Let_def)
  have none: "find (statIsFile e) (fileCandidates base) = None \<Longrightarrow>
      takeWhile (\<lambda>p. \<not> statIsFile e p) (fileCandidates base) = fileCandidates base"
    by (simp add: find_None_iff)
  have r: "resolveModulePath e root m f =
      (case tryExtensions e base extensions of
         (Some withExt, probes) \<Rightarrow> (Some withExt, probes)
       | (None, probes) \<Rightarrow>
           (case tryIndexFiles e base indexExtensions of (r, probes') \<Rightarrow> (r, probes @ probes')))"
    unfolding base resolvedBaseOf_def using m by (auto simp: resolveModulePath_def Let_def)
  show ?thesis
    unfolding r using f1 f2 i1 i2 none
    by (cases "tryExtensions e base extensions"; cases "tryIndexFiles e base indexExtensions")
       (auto split: option.splits)
qed

text \<open>
  Claim C6: for an import path that begins with \<^verbatim>\<open>.\<close> or \<^verbatim>\<open>/\<close>, the result is the first
  of the candidates base, base\<^verbatim>\<open>.js\<close>, \<^verbatim>\<open>.ts\<close>, \<^verbatim>\<open>.jsx\<close>, \<^verbatim>\<open>.tsx\<close>, \<^verbatim>\<open>.mjs\<close>, \<^verbatim>\<open>.cjs\<close> that is a
  regular file; only if there is none, it is the first of base\<^verbatim>\<open>/index.js\<close>,
  \<^verbatim>\<open>index.ts\<close>, \<^verbatim>\<open>index.jsx\<close>, \<^verbatim>\<open>index.tsx\<close> that exists. The paths are probed in exactly
  that order, up to the one that is found.
\<close>

theorem resolveModulePath_order:
  "startsWith m ''.'' \<or> startsWith m ''/'' \<Longrightarrow>
   fst (resolveModulePath e root m f) =
     (case find (statIsFile e) (fileCandidates (resolvedBaseOf e root m f)) of
        Some p \<Rightarrow> Some p
      | None \<Rightarrow> find (existsSync e) (indexCandidates (resolvedBaseOf e root m f))) \<and>
   snd (resolveModulePath e root m f) =
     (case find (statIsFile e) (fileCandidates (resolvedBaseOf e root m f)) of
        Some p \<Rightarrow>
          takeWhile (\<lambda>p. \<not> statIsFile e p) (fileCandidates (resolvedBaseOf e root m f)) @ [p]
      | None \<Rightarrow>
          fileCandidates (resolvedBaseOf e root m f) @
          takeWhile (\<lambda>p. \<not> existsSync e p) (indexCandidates (resolvedBaseOf e root m f)) @
          (case find (existsSync e) (indexCandidates (resolvedBaseOf e root m f)) of
             Some p \<Rightarrow> [p] | None \<Rightarrow> []))"
  by (rule resolveModulePath_relative) simp_all

text \<open>
  In \<open>libEnv\<close> there is \<^verbatim>\<open>shared/lib/index.ts\<close> and no \<^verbatim>\<open>shared/lib.ts\<close>: the import of
  \<^verbatim>\<open>./shared/lib\<close> resolves to the index file from \<^verbatim>\<open>x.ts\<close> and from \<^verbatim>\<open>y.ts\<close>, after the
  seven file candidates and \<^verbatim>\<open>index.js\<close>.
\<close>

theorem resolveModulePath_order_witness:
  "resolveModulePath libEnv ''/ws'' ''./shared/lib'' ''/ws/x.ts'' =
     (Some ''/ws/shared/lib/index.ts'',
      [''/ws/shared/lib'', ''/ws/shared/lib.js'', ''/ws/shared/lib.ts'', ''/ws/shared/lib.jsx'',
       ''/ws/shared/lib.tsx'', ''/ws/shared/lib.mjs'', ''/ws/shared/lib.cjs'',
       ''/ws/shared/lib/index.js'', ''/ws/shared/lib/index.ts'']) \<and>
   fst (resolveModulePath libEnv ''/ws'' ''./shared/lib'' ''/ws/y.ts'') =
     Some ''/ws/shared/lib/index.ts''"
proof -
  have h: "startsWith ''./shared/lib'' ''.'' \<or> startsWith ''./shared/lib'' ''/''"
    by simp
  have bx: "resolvedBaseOf libEnv ''/ws'' ''./shared/lib'' ''/ws/x.ts'' = ''/ws/shared/lib''"
    by code_simp
  have "by": "resolvedBaseOf libEnv ''/ws'' ''./shared/lib'' ''/ws/y.ts'' = ''/ws/shared/lib''"
    by code_simp
  have c1: "(case find (statIsFile libEnv) (fileCandidates ''/ws/shared/lib'') of
        Some p \<Rightarrow> Some p
      | None \<Rightarrow> find (existsSync libEnv) (indexCandidates ''/ws/shared/lib'')) =
      Some ''/ws/shared/lib/index.ts''"
    by code_simp
  have c2: "(case find (statIsFile libEnv) (fileCandidates ''/ws/shared/lib'') of
        Some p \<Rightarrow> takeWhile (\<lambda>p. \<not> statIsFile libEnv p) (fileCandidates ''/ws/shared/lib'') @ [p]
      | None \<Rightarrow>
          fileCandidates ''/ws/shared/lib'' @
          takeWhile (\<lambda>p. \<not> existsSync libEnv p) (indexCandidates ''/ws/shared/lib'') @
          (case find (existsSync libEnv) (indexCandidates ''/ws/shared/lib'') of
             Some p \<Rightarrow> [p] | None \<Rightarrow> [])) =
      [''/ws/shared/lib'', ''/ws/shared/lib.js'', ''/ws/shared/lib.ts'', ''/ws/shared/lib.jsx'',
       ''/ws/shared/lib.tsx'', ''/ws/shared/lib.mjs'', ''/ws/shared/lib.cjs'',
       ''/ws/shared/lib/index.js'', ''/ws/shared/lib/index.ts'']"
    by code_simp
  note tx = resolveModulePath_order [OF h, of libEnv "''/ws''" "''/ws/x.ts''", unfolded bx c1 c2]
  note ty = resolveModulePath_order [OF h, of libEnv "''/ws''" "''/ws/y.ts''", unfolded "by" c1 c2]
  from tx ty show ?thesis
    by (metis prod.collapse)
qed

section \<open>Properties of the edges\<close>

lemma keepFirst_keys: "key ` set (keepFirst key xs) = key ` set xs"
  by (induction key xs rule: keepFirst.induct) auto

lemma keepFirst_snoc: "keepFirst key (xs @ [x]) = pushNew key (keepFirst key xs) x"
proof (induction key xs rule: keepFirst.induct)
  case (1 key)
  show ?case by (simp add: pushNew_def)
next
  case (2 key y ys)
  show ?case
  proof (cases "key x = key y")
    case True
    then show ?thesis by (simp add: pushNew_def)
  next
    case False
    have "keepFirst key ((y # ys) @ [x]) =
        y # keepFirst key (filter (\<lambda>z. key z \<noteq> key y) ys @ [x])"
      using False by simp
    also have "\<dots> = y # pushNew key (keepFirst key (filter (\<lambda>z. key z \<noteq> key y) ys)) x"
      using "2.IH" by simp
    also have "\<dots> = pushNew key (keepFirst key (y # ys)) x"
      using False by (simp add: pushNew_def)
    finally show ?thesis .
  qed
qed

lemma foldl_pushNew: "foldl (pushNew key) (keepFirst key pre) xs = keepFirst key (pre @ xs)"
proof (induction xs arbitrary: pre)
  case Nil
  show ?case by simp
next
  case (Cons x xs)
  have "foldl (pushNew key) (keepFirst key pre) (x # xs) =
      foldl (pushNew key) (keepFirst key (pre @ [x])) xs"
    by (simp add: keepFirst_snoc)
  also have "\<dots> = keepFirst key ((pre @ [x]) @ xs)"
    by (rule Cons.IH)
  finally show ?case by simp
qed

lemma keepFirst_distinct: "distinct (map key (keepFirst key xs))"
proof (induction key xs rule: keepFirst.induct)
  case (1 key)
  show ?case by simp
next
  case (2 key x xs)
  have "key x \<notin> key ` set (keepFirst key (filter (\<lambda>y. key y \<noteq> key x) xs))"
    by (auto simp: keepFirst_keys)
  with "2.IH" show ?case by simp
qed

lemma keepFirst_find:
  "x \<in> set (keepFirst key xs) \<Longrightarrow> find (\<lambda>y. key y = key x) xs = Some x"
proof (induction key xs rule: keepFirst.induct)
  case (1 key)
  then show ?case by simp
next
  case (2 key y ys)
  show ?case
  proof (cases "x = y")
    case True
    then show ?thesis by simp
  next
    case False
    with "2.prems" have mem: "x \<in> set (keepFirst key (filter (\<lambda>z. key z \<noteq> key y) ys))"
      by simp
    then have "key x \<in> key ` set (filter (\<lambda>z. key z \<noteq> key y) ys)"
      using keepFirst_keys [of key "filter (\<lambda>z. key z \<noteq> key y) ys"] by blast
    then have ne: "key y \<noteq> key x" by auto
    have "find (\<lambda>z. key z = key x) (filter (\<lambda>z. key z \<noteq> key y) ys) = Some x"
      using "2.IH" mem by simp
    moreover have "find (\<lambda>z. key z = key x) (filter (\<lambda>z. key z \<noteq> key y) ys) =
        find (\<lambda>z. key z = key x) ys"
      using ne by (induction ys) auto
    ultimately show ?thesis using ne by simp
  qed
qed

lemma addEdge_pushNew:
  "addEdge names fromId lbl edges dep =
     foldl (pushNew edgeKey) edges (dependencyEdges names fromId lbl dep)"
  by (auto simp: addEdge_def dependencyEdges_def pushNew_def edgeKey_def list_ex_iff image_iff
      split: option.splits)

lemma foldl_addEdge:
  "foldl (addEdge names fromId lbl) edges deps =
     foldl (pushNew edgeKey) edges (concat (map (dependencyEdges names fromId lbl) deps))"
  by (induction deps arbitrary: edges) (simp_all add: addEdge_pushNew)

lemma addModuleEdges_pushNew:
  "addModuleEdges names edges entry = foldl (pushNew edgeKey) edges (moduleEdges names entry)"
  by (cases entry) (simp add: addModuleEdges_def moduleEdges_def foldl_addEdge split: option.splits)

lemma foldl_addModuleEdges:
  "foldl (addModuleEdges names) edges ms =
     foldl (pushNew edgeKey) edges (concat (map (moduleEdges names) ms))"
  by (induction ms arbitrary: edges) (simp_all add: addModuleEdges_pushNew)

lemma convertEdgeSources_keepFirst:
  "convertEdgeSources g = keepFirst edgeKey (edgeCandidates (namesHashMap g) (genModules g))"
  using foldl_pushNew [of edgeKey "[]" "edgeCandidates (namesHashMap g) (genModules g)"]
  by (simp add: convertEdgeSources_def foldl_addModuleEdges edgeCandidates_def)

text \<open>
  Claim C3: the edges are the candidates (in map order, one for every dependency that is
  resolved, valid and whose target has an identifier) with only the first of every pair
  of identifiers kept: no pair appears twice, every pair of a candidate appears, and
  every edge is the first candidate with its pair.
\<close>

theorem convertEdgeSources_first_wins:
  "convertEdgeSources g = keepFirst edgeKey (edgeCandidates (namesHashMap g) (genModules g)) \<and>
   distinct (map edgeKey (convertEdgeSources g)) \<and>
   edgeKey ` set (convertEdgeSources g) =
     edgeKey ` set (edgeCandidates (namesHashMap g) (genModules g)) \<and>
   (\<forall>ed \<in> set (convertEdgeSources g).
      find (\<lambda>c. edgeKey c = edgeKey ed) (edgeCandidates (namesHashMap g) (genModules g)) = Some ed)"
  by (simp add: convertEdgeSources_keepFirst keepFirst_distinct keepFirst_keys keepFirst_find)

text \<open>
  In the example, \<^verbatim>\<open>a.ts\<close> imports and requires \<^verbatim>\<open>./b\<close>: two candidates with the same
  pair, one edge.
\<close>

theorem convertEdgeSources_first_wins_witness:
  "edgeCandidates (namesHashMap demoGenerator) (genModules demoGenerator) =
     [\<lparr>fromNode = ''N1'', fromText = ''a.ts'', toNode = ''N2'', toText = ''b.ts''\<rparr>,
      \<lparr>fromNode = ''N1'', fromText = ''a.ts'', toNode = ''N2'', toText = ''b.ts''\<rparr>] \<and>
   convertEdgeSources demoGenerator =
     [\<lparr>fromNode = ''N1'', fromText = ''a.ts'', toNode = ''N2'', toText = ''b.ts''\<rparr>] \<and>
   find (\<lambda>c. edgeKey c = (''N1'', ''N2''))
     (edgeCandidates (namesHashMap demoGenerator) (genModules demoGenerator)) =
     Some \<lparr>fromNode = ''N1'', fromText = ''a.ts'', toNode = ''N2'', toText = ''b.ts''\<rparr>"
proof -
  have c: "edgeCandidates (namesHashMap demoGenerator) (genModules demoGenerator) =
     [\<lparr>fromNode = ''N1'', fromText = ''a.ts'', toNode = ''N2'', toText = ''b.ts''\<rparr>,
      \<lparr>fromNode = ''N1'', fromText = ''a.ts'', toNode = ''N2'', toText = ''b.ts''\<rparr>]"
    by code_simp
  note t = convertEdgeSources_first_wins [of demoGenerator, unfolded c]
  have k: "keepFirst edgeKey
     [\<lparr>fromNode = ''N1'', fromText = ''a.ts'', toNode = ''N2'', toText = ''b.ts''\<rparr>,
      \<lparr>fromNode = ''N1'', fromText = ''a.ts'', toNode = ''N2'', toText = ''b.ts''\<rparr>] =
     [\<lparr>fromNode = ''N1'', fromText = ''a.ts'', toNode = ''N2'', toText = ''b.ts''\<rparr>]"
    by (simp add: edgeKey_def)
  from t have e: "convertEdgeSources demoGenerator =
     [\<lparr>fromNode = ''N1'', fromText = ''a.ts'', toNode = ''N2'', toText = ''b.ts''\<rparr>]"
    by (simp only: k)
  from t e have "find (\<lambda>c. edgeKey c = edgeKey
        \<lparr>fromNode = ''N1'', fromText = ''a.ts'', toNode = ''N2'', toText = ''b.ts''\<rparr>)
     [\<lparr>fromNode = ''N1'', fromText = ''a.ts'', toNode = ''N2'', toText = ''b.ts''\<rparr>,
      \<lparr>fromNode = ''N1'', fromText = ''a.ts'', toNode = ''N2'', toText = ''b.ts''\<rparr>] =
     Some \<lparr>fromNode = ''N1'', fromText = ''a.ts'', toNode = ''N2'', toText = ''b.ts''\<rparr>"
    by simp
  then show ?thesis
    unfolding c using e by (simp add: edgeKey_def)
qed

section \<open>Properties of the rendering\<close>

lemma edgeStyleStep_directive:
  "edgeStyleStep idm (styles, i) ed = (styles @ [newline] @ styleDirective idm (i, ed), i + 1)"
  by (auto simp: edgeStyleStep_def styleDirective_def edgeStyleOf_def Let_def
      split: option.splits)

lemma foldl_edgeStyleStep:
  "foldl (edgeStyleStep idm) (styles, i) edges =
     (styles @ concat (map (\<lambda>ied. [newline] @ styleDirective idm ied) (enumerate i edges)),
      i + length edges)"
proof (induction edges arbitrary: styles i)
  case Nil
  show ?case by simp
next
  case (Cons ed edges)
  show ?case
    by (simp only: foldl_Cons edgeStyleStep_directive Cons.IH) simp
qed

lemma renderEdgeStyles_enumerate:
  "renderEdgeStyles g edges =
     concat (map (\<lambda>ied. [newline] @ styleDirective (nodeIdToModule g) ied) (enumerate 0 edges))"
  by (simp add: renderEdgeStyles_def foldl_edgeStyleStep)

lemma digitChar_not_newline: "d < 36 \<Longrightarrow> digitChar d \<noteq> CHR 0x0A"
proof
  assume d: "d < 36" and eq: "digitChar d = CHR 0x0A"
  have "(of_char (digitChar d) :: nat) = (if d < 10 then 48 + d else 55 + d)"
    using d by (simp add: digitChar_def)
  then show False using eq by (simp split: if_splits)
qed

lemma toStringRadix_no_newline:
  "2 \<le> b \<Longrightarrow> b \<le> 36 \<Longrightarrow> CHR 0x0A \<notin> set (toStringRadix b n)"
proof (induction b n rule: toStringRadix.induct)
  case (1 b n)
  show ?case
  proof (cases "n < b")
    case True
    with "1.prems" have "digitChar n \<noteq> CHR 0x0A"
      by (intro digitChar_not_newline) simp
    with True show ?thesis
      by (subst toStringRadix.simps) simp
  next
    case False
    have "n mod b < b"
      using "1.prems" by simp
    with "1.prems" have "n mod b < 36"
      by linarith
    then have d: "digitChar (n mod b) \<noteq> CHR 0x0A"
      by (rule digitChar_not_newline)
    have "CHR 0x0A \<notin> set (toStringRadix b (n div b))"
      using "1.IH" "1.prems" False by simp
    with d False "1.prems" show ?thesis
      by (subst toStringRadix.simps) auto
  qed
qed

lemma getEdgeColor_no_newline: "CHR 0x0A \<notin> set (getEdgeColor t)"
  by (cases t) simp_all

lemma edgeStyleOf_no_newline: "CHR 0x0A \<notin> set (edgeStyleOf idm ed)"
  by (auto simp: edgeStyleOf_def Let_def getEdgeColor_no_newline split: option.splits)

lemma styleDirective_no_newline: "newline \<notin> set (styleDirective idm ied)"
  using toStringRadix_no_newline [of 10 "fst ied"] edgeStyleOf_no_newline [of idm "snd ied"]
  by (simp add: styleDirective_def toStringNat_def newline_def)

lemma splitChar_no_sep: "c \<notin> set w \<Longrightarrow> splitChar c w = [w]"
  by (induction w) auto

lemma splitChar_append_sep:
  "c \<notin> set w \<Longrightarrow> splitChar c (w @ c # r) = w # splitChar c r"
  by (induction w) auto

lemma splitChar_lines:
  "\<forall>x \<in> set xs. c \<notin> set (f x) \<Longrightarrow> c \<notin> set w \<Longrightarrow>
   splitChar c (w @ concat (map (\<lambda>x. [c] @ f x) xs)) = w # map f xs"
proof (induction xs arbitrary: w)
  case Nil
  then show ?case by (simp add: splitChar_no_sep)
next
  case (Cons x xs)
  have "splitChar c (w @ concat (map (\<lambda>x. [c] @ f x) (x # xs))) =
      w # splitChar c (f x @ concat (map (\<lambda>x. [c] @ f x) xs))"
    using Cons.prems splitChar_append_sep [of c w] by simp
  also have "splitChar c (f x @ concat (map (\<lambda>x. [c] @ f x) xs)) = f x # map f xs"
    using Cons.prems by (intro Cons.IH) auto
  finally show ?case by simp
qed

lemma renderEdgeStyles_lines:
  "splitChar newline (renderEdgeStyles g edges) =
     [] # map (styleDirective (nodeIdToModule g)) (enumerate 0 edges)"
  using splitChar_lines [of "enumerate 0 edges" newline "styleDirective (nodeIdToModule g)" "[]"]
  by (simp add: renderEdgeStyles_enumerate styleDirective_no_newline)

lemma generate_cases:
  "generate g =
     (case convertSubgraphSources (hashModuleNames g) of
        Inl err \<Rightarrow> (Inl err, hashModuleNames g)
      | Inr subgraphs \<Rightarrow>
          (Inr (textBeforeEdges (minify (hashModuleNames g)) subgraphs
                @ renderEdges (convertEdgeSources (hashModuleNames g)) @ [newline]
                @ renderNodeStyles (hashModuleNames g) @ [newline]
                @ renderEdgeStyles (hashModuleNames g) (convertEdgeSources (hashModuleNames g))),
           hashModuleNames g))"
  unfolding generate_def Let_def textBeforeEdges_def
  by (cases "convertSubgraphSources (hashModuleNames g)") (simp_all only: sum.case append_assoc)

lemma demo_generate:
  "generate (newGenerator demoModules ''/ws'' True) = (Inr demoText, demoGenerator)"
  by code_simp

lemma snd_generate: "snd (generate g) = hashModuleNames g"
  unfolding generate_cases by (cases "convertSubgraphSources (hashModuleNames g)") simp_all

lemma genModules_hashModuleNames: "genModules (hashModuleNames g) = genModules g"
  by (simp add: hashModuleNames_def Let_def)

lemma hashModuleNames_root:
  "hashModuleNames (g\<lparr>genWorkspaceRoot := r\<rparr>) = (hashModuleNames g)\<lparr>genWorkspaceRoot := r\<rparr>"
  by (simp add: hashModuleNames_def Let_def)

lemma generate_root: "fst (generate (g\<lparr>genWorkspaceRoot := r\<rparr>)) = fst (generate g)"
proof -
  have a: "convertSubgraphSources ((hashModuleNames g)\<lparr>genWorkspaceRoot := r\<rparr>) =
      convertSubgraphSources (hashModuleNames g)"
    by (simp add: convertSubgraphSources_def)
  have b: "convertEdgeSources ((hashModuleNames g)\<lparr>genWorkspaceRoot := r\<rparr>) =
      convertEdgeSources (hashModuleNames g)"
    by (simp add: convertEdgeSources_def)
  have c: "renderNodeStyles ((hashModuleNames g)\<lparr>genWorkspaceRoot := r\<rparr>) =
      renderNodeStyles (hashModuleNames g)"
    by (simp add: renderNodeStyles_def)
  have d: "renderEdgeStyles ((hashModuleNames g)\<lparr>genWorkspaceRoot := r\<rparr>) =
      renderEdgeStyles (hashModuleNames g)"
    by (simp add: renderEdgeStyles_def fun_eq_iff)
  have m: "minify ((hashModuleNames g)\<lparr>genWorkspaceRoot := r\<rparr>) = minify (hashModuleNames g)"
    by simp
  show ?thesis
    unfolding generate_cases hashModuleNames_root a b c d m
    by (cases "convertSubgraphSources (hashModuleNames g)") simp_all
qed

text \<open>
  Claim C7: rendering a module map a second time, from the builder as the first rendering
  left it, gives the same result; the rendering leaves the builder and its module map as
  they were; and the result is a function of the module map alone (of its content and
  order), not of anything else the builder holds.
\<close>

theorem generateMermaid_deterministic:
  "generateMermaid (snd (generateMermaid b)) = generateMermaid b \<and>
   snd (generateMermaid b) = b \<and>
   (builderModules b = builderModules b' \<longrightarrow> fst (generateMermaid b) = fst (generateMermaid b'))"
proof -
  have gm: "generateMermaid c =
      (fst (generate (newGenerator (builderModules c) (builderWorkspaceRoot c) True)),
       c\<lparr>builderModules := genModules (snd (generate
           (newGenerator (builderModules c) (builderWorkspaceRoot c) True)))\<rparr>)" for c
    by (simp add: generateMermaid_def split: prod.splits)
  have s: "snd (generateMermaid c) = c" for c
    unfolding gm snd_generate genModules_hashModuleNames by (simp add: newGenerator_def)
  have n: "newGenerator ms r' mini = (newGenerator ms r mini)\<lparr>genWorkspaceRoot := r'\<rparr>"
    for ms r r' mini
    by (simp add: newGenerator_def)
  have f: "fst (generateMermaid b) = fst (generateMermaid b')"
    if "builderModules b = builderModules b'"
    unfolding gm fst_conv that
    using generate_root [where g = "newGenerator (builderModules b') (builderWorkspaceRoot b) True"
        and r = "builderWorkspaceRoot b'"]
    by (simp only: n [of _ "builderWorkspaceRoot b'" True "builderWorkspaceRoot b"])
  from s f show ?thesis by simp
qed

theorem generateMermaid_deterministic_witness:
  "fst (generateMermaid \<lparr>builderModules = demoModules, builderWorkspaceRoot = ''/ws''\<rparr>) =
   fst (generateMermaid \<lparr>builderModules = demoModules, builderWorkspaceRoot = ''/elsewhere''\<rparr>)"
proof -
  have "builderModules \<lparr>builderModules = demoModules, builderWorkspaceRoot = ''/ws''\<rparr> =
      builderModules \<lparr>builderModules = demoModules, builderWorkspaceRoot = ''/elsewhere''\<rparr>"
    by simp
  with generateMermaid_deterministic show ?thesis by blast
qed

section \<open>Properties of the analysis\<close>

lemma mapSet_keys: "fst ` set (mapSet m k v) = insert k (fst ` set m)"
  by (induction m) (auto split: if_splits, (force+)?)

lemma mapSet_map_fst:
  "map fst (mapSet m k v) = (if k \<in> fst ` set m then map fst m else map fst m @ [k])"
  by (induction m) (auto split: if_splits, (force+)?)

lemma mapSet_distinct: "distinct (map fst m) \<Longrightarrow> distinct (map fst (mapSet m k v))"
  by (simp add: mapSet_map_fst)

lemma mapSet_set: "set (mapSet m k v) \<subseteq> insert (k, v) (set m)"
  by (induction m) (auto split: if_splits)

lemma mapSet_map_of: "map_of (mapSet m k v) = (map_of m)(k \<mapsto> v)"
  by (induction m) (auto simp: fun_eq_iff)

lemma analyzeFile_Some:
  "analyzeFile e root f = Some m \<Longrightarrow>
   source m = f \<and> dependents m = [] \<and> readFile e f \<noteq> None \<and>
   relativePath m = pathRelative (cwd e) root f \<and>
   (\<exists>content. dependencies m = extractDependencies e root content f (languageId m))"
  by (auto simp: analyzeFile_def Let_def split: option.splits)

lemma analyzeFiles_step:
  "analyzed e root acc \<Longrightarrow>
   analyzed e root (case analyzeFile e root f of None \<Rightarrow> acc | Some m \<Rightarrow> mapSet acc (source m) m)"
proof (cases "analyzeFile e root f")
  case None
  then show "analyzed e root acc \<Longrightarrow> ?thesis" by simp
next
  case (Some m)
  assume a: "analyzed e root acc"
  from Some have src: "source m = f" by (simp add: analyzeFile_Some)
  have "\<forall>entry \<in> set (mapSet acc f m). analyzeFile e root (fst entry) = Some (snd entry)"
    using a Some mapSet_set [of acc f m] by (auto simp: analyzed_def)
  with a show ?thesis
    by (simp add: Some src analyzed_def mapSet_distinct)
qed

lemma analyzeFiles_foldl:
  "analyzed e root acc \<Longrightarrow>
   analyzed e root
     (foldl (\<lambda>ms filePath.
              (case analyzeFile e root filePath of
                 None \<Rightarrow> ms
               | Some m \<Rightarrow> mapSet ms (source m) m)) acc files)"
  by (induction files arbitrary: acc) (simp_all add: analyzeFiles_step)

lemma analyzeFiles_analyzed: "analyzed e root (analyzeFiles e root files)"
  unfolding analyzeFiles_def by (rule analyzeFiles_foldl) (simp add: analyzed_def)

lemma addBacklinks_keys: "map fst (addBacklinks new ms) = map fst ms"
  by (simp add: addBacklinks_def comp_def)

lemma addBacklinks_nothing: "(\<And>k. k \<in> fst ` set ms \<Longrightarrow> new k = []) \<Longrightarrow> addBacklinks new ms = ms"
  unfolding addBacklinks_def by (rule map_idI) auto

lemma addBacklinks_twice:
  "addBacklinks new2 (addBacklinks new1 ms) = addBacklinks (\<lambda>k. new1 k @ new2 k) ms"
  by (simp add: addBacklinks_def comp_def)

lemma addBacklinks_cong:
  "(\<And>k. k \<in> fst ` set ms \<Longrightarrow> new1 k = new2 k) \<Longrightarrow> addBacklinks new1 ms = addBacklinks new2 ms"
  unfolding addBacklinks_def by (rule map_cong) auto

lemma mapSet_present:
  "distinct (map fst m) \<Longrightarrow> map_of m k = Some v0 \<Longrightarrow>
   mapSet m k (f v0) = map (\<lambda>entry. if fst entry = k then (k, f (snd entry)) else entry) m"
proof (induction m)
  case Nil
  then show ?case by simp
next
  case (Cons a m)
  show ?case
  proof (cases "fst a = k")
    case True
    with Cons.prems have v: "snd a = v0" by (cases a) simp
    from True Cons.prems have "k \<notin> fst ` set m" by auto
    then have "map (\<lambda>entry. if fst entry = k then (k, f (snd entry)) else entry) m = m"
      by (intro map_idI) auto
    with True v show ?thesis by (cases a) simp
  next
    case False
    with Cons show ?thesis by (cases a) auto
  qed
qed

lemma addDependent_addBacklinks:
  assumes d: "distinct (map fst acc)"
  shows "addDependent src acc dep = addBacklinks (\<lambda>k. depBacklinks src k dep) acc"
proof (cases "\<exists>t dm. resolved dep = Some t \<and> t \<noteq> [] \<and> map_of acc t = Some dm")
  case False
  then have l: "addDependent src acc dep = acc"
    by (auto simp: addDependent_def mapHas_def mapGet_def split: option.splits)
  have "depBacklinks src k dep = []" if "k \<in> fst ` set acc" for k
  proof -
    from that have "map_of acc k \<noteq> None"
      by (simp add: map_of_eq_None_iff)
    with False show ?thesis
      by (auto simp: depBacklinks_def)
  qed
  then have "addBacklinks (\<lambda>k. depBacklinks src k dep) acc = acc"
    by (rule addBacklinks_nothing)
  with l show ?thesis by simp
next
  case True
  then obtain t dm where t: "resolved dep = Some t" "t \<noteq> []" "map_of acc t = Some dm"
    by blast
  have r: "addBacklinks (\<lambda>k. depBacklinks src k dep) acc =
      map (\<lambda>entry. if fst entry = t
             then (t, (snd entry)\<lparr>dependents := setAdd (dependents (snd entry)) src\<rparr>)
             else entry) acc"
    unfolding addBacklinks_def using t by (intro map_cong) (auto simp: depBacklinks_def)
  have l: "addDependent src acc dep = mapSet acc t (dm\<lparr>dependents := setAdd (dependents dm) src\<rparr>)"
  proof (cases "src \<in> set (dependents dm)")
    case True
    have "map (\<lambda>entry. if fst entry = t then (t, snd entry) else entry) acc = acc"
      by (rule map_idI) (auto split: if_splits)
    then have "mapSet acc t dm = acc"
      using mapSet_present [OF d t(3), of "\<lambda>x. x"] by simp
    with True t show ?thesis
      by (simp add: addDependent_def mapHas_def mapGet_def setAdd_def)
  next
    case False
    with t show ?thesis
      by (simp add: addDependent_def mapHas_def mapGet_def setAdd_def)
  qed
  show ?thesis
    unfolding l r
    using mapSet_present [OF d t(3), of "\<lambda>m. m\<lparr>dependents := setAdd (dependents m) src\<rparr>"]
    by simp
qed

lemma foldl_addDependent:
  "distinct (map fst acc) \<Longrightarrow>
   foldl (addDependent src) acc deps =
     addBacklinks (\<lambda>k. concat (map (depBacklinks src k) deps)) acc"
proof (induction deps arbitrary: acc)
  case Nil
  show ?case by (simp add: addBacklinks_nothing)
next
  case (Cons dep deps)
  have d: "distinct (map fst (addBacklinks (\<lambda>k. depBacklinks src k dep) acc))"
    using Cons.prems by (simp add: addBacklinks_keys)
  show ?case
    using Cons.IH [OF d] Cons.prems
    by (simp add: addDependent_addBacklinks addBacklinks_twice)
qed

lemma foldl_link:
  "distinct (map fst acc) \<Longrightarrow>
   foldl (\<lambda>acc (src, m). foldl (addDependent src) acc (dependencies m)) acc todo =
     addBacklinks (backlinks todo) acc"
proof (induction todo arbitrary: acc)
  case Nil
  show ?case by (simp add: addBacklinks_nothing backlinks_def)
next
  case (Cons entry todo)
  obtain src m where entry: "entry = (src, m)" by (cases entry)
  have d: "distinct (map fst (addBacklinks (\<lambda>k. concat (map (depBacklinks src k) (dependencies m))) acc))"
    using Cons.prems by (simp add: addBacklinks_keys)
  have "backlinks (entry # todo) = (\<lambda>k. concat (map (depBacklinks src k) (dependencies m)) @ backlinks todo k)"
    by (simp add: backlinks_def entry fun_eq_iff)
  then show ?case
    using Cons.IH [OF d] Cons.prems
    by (simp add: entry foldl_addDependent addBacklinks_twice)
qed

lemma resolveDependencies_backlinks:
  "distinct (map fst ms) \<Longrightarrow> resolveDependencies ms = addBacklinks (backlinks ms) ms"
  unfolding resolveDependencies_def by (rule foldl_link)

lemma isAbsolute_iff: "isAbsolute p \<longleftrightarrow> (\<exists>r. p = CHR ''/'' # r)"
  by (cases p) (auto simp: isAbsolute_def)

lemma splitChar_elems: "x \<in> set (splitChar c s) \<Longrightarrow> c \<notin> set x"
proof (induction s arbitrary: x)
  case Nil
  then show ?case by simp
next
  case (Cons a s)
  then show ?case
    by (cases "splitChar c s") (auto split: if_splits)
qed

lemma segments_elems: "x \<in> set (segments p) \<Longrightarrow> x \<noteq> [] \<and> CHR ''/'' \<notin> set x"
  by (auto simp: segments_def dest: splitChar_elems)

lemma pathSegments_elems: "x \<in> set (pathSegments p) \<Longrightarrow> x \<noteq> [] \<and> CHR ''/'' \<notin> set x"
  by (auto simp: pathSegments_def dest: splitChar_elems)

lemma joinWith_hd: "x \<noteq> [] \<Longrightarrow> \<exists>r. joinWith s (x # xs) = hd x # r"
  by (cases xs; cases x) auto

lemma joinWith_not_absolute:
  assumes a: "\<forall>x \<in> set xs. x \<noteq> [] \<and> CHR ''/'' \<notin> set x"
  shows "\<not> isAbsolute (joinWith s xs)"
proof (cases xs)
  case Nil
  then show ?thesis by (simp add: isAbsolute_def)
next
  case (Cons x xs')
  with a have x: "x \<noteq> []" and n: "CHR ''/'' \<notin> set x"
    by simp_all
  from x n have h: "hd x \<noteq> CHR ''/''"
    by (cases x) auto
  from joinWith_hd [OF x] obtain r where "joinWith s (x # xs') = hd x # r" by blast
  with h Cons show ?thesis by (simp add: isAbsolute_def)
qed

lemma dropCommon_snd: "set (snd (dropCommon xs ys)) \<subseteq> set ys"
  by (induction xs ys rule: dropCommon.induct) auto

lemma pathRelative_not_absolute: "\<not> isAbsolute (pathRelative c a b)"
proof -
  have "\<not> isAbsolute (joinWith ''/'' (map (\<lambda>_. ''..'') fs @ ts))"
    if "dropCommon (segments (pathResolve1 c a)) (segments (pathResolve1 c b)) = (fs, ts)" for fs ts
  proof (rule joinWith_not_absolute, rule ballI)
    fix x assume "x \<in> set (map (\<lambda>_. ''..'') fs @ ts)"
    then consider "x = ''..''" | "x \<in> set ts" by auto
    then show "x \<noteq> [] \<and> CHR ''/'' \<notin> set x"
    proof cases
      case 1
      then show ?thesis by simp
    next
      case 2
      with that dropCommon_snd [of "segments (pathResolve1 c a)" "segments (pathResolve1 c b)"]
      have "x \<in> set (segments (pathResolve1 c b))" by auto
      then show ?thesis by (rule segments_elems)
    qed
  qed
  then show ?thesis
    by (auto simp: pathRelative_def Let_def isAbsolute_def split: prod.splits)
qed

lemma pathPrefixes_not_absolute:
  "x \<in> set (pathPrefixes (pathSegments p)) \<Longrightarrow> \<not> isAbsolute x"
proof -
  assume "x \<in> set (pathPrefixes (pathSegments p))"
  then obtain i where x: "x = joinWith sep (take (i + 1) (pathSegments p))"
    by (auto simp: pathPrefixes_def)
  have "\<forall>y \<in> set (take (i + 1) (pathSegments p)). y \<noteq> [] \<and> CHR ''/'' \<notin> set y"
    using pathSegments_elems by (meson in_set_takeD)
  then show ?thesis unfolding x by (rule joinWith_not_absolute)
qed

lemma setAdd_set: "set (setAdd xs x) = insert x (set xs)"
  by (auto simp: setAdd_def)

lemma foldl_setAdd_set: "set (foldl setAdd acc xs) = set acc \<union> set xs"
  by (induction xs arbitrary: acc) (auto simp: setAdd_set)

lemma foldl_setAdd_distinct: "distinct acc \<Longrightarrow> distinct (foldl setAdd acc xs)"
  by (induction xs arbitrary: acc) (auto simp: setAdd_def)

lemma collectPaths_step:
  "set ((\<lambda>allPaths (filePath, m).
              setAdd (foldl setAdd allPaths (pathPrefixes (pathSegments (relativePath m))))
                (relativePath m)) acc entry) = set acc \<union> pathsOf entry"
  by (cases entry) (simp add: setAdd_set foldl_setAdd_set pathsOf_def Un_commute)

lemma collectPaths_foldl:
  "set (foldl (\<lambda>allPaths (filePath, m).
              setAdd (foldl setAdd allPaths (pathPrefixes (pathSegments (relativePath m))))
                (relativePath m)) acc ms) =
   set acc \<union> (\<Union>entry \<in> set ms. pathsOf entry)"
proof (induction ms arbitrary: acc)
  case Nil
  show ?case by simp
next
  case (Cons entry ms)
  show ?case
    by (simp only: foldl_Cons Cons.IH collectPaths_step) auto
qed

lemma collectPaths_set: "set (collectPaths ms) = (\<Union>entry \<in> set ms. pathsOf entry)"
  unfolding collectPaths_def by (simp only: collectPaths_foldl) simp

lemma collectPaths_not_absolute:
  assumes rel: "\<forall>entry \<in> set ms. \<not> isAbsolute (relativePath (snd entry))"
    and x: "x \<in> set (collectPaths ms)"
  shows "\<not> isAbsolute x"
proof -
  from x obtain entry where entry: "entry \<in> set ms" and "x \<in> pathsOf entry"
    unfolding collectPaths_set by blast
  then consider "x = relativePath (snd entry)"
    | "x \<in> set (pathPrefixes (pathSegments (relativePath (snd entry))))"
    unfolding pathsOf_def by blast
  then show ?thesis
  proof cases
    case 1
    with rel entry show ?thesis by blast
  next
    case 2
    then show ?thesis by (rule pathPrefixes_not_absolute)
  qed
qed

lemma assignId_keys:
  "fst ` set (fst (foldl (assignId mini) (names, c) paths)) \<subseteq> fst ` set names \<union> set paths"
proof (induction paths arbitrary: names c)
  case Nil
  show ?case by simp
next
  case (Cons p paths)
  obtain names' c' where st: "assignId mini (names, c) p = (names', c')"
    by (cases "assignId mini (names, c) p")
  then have "names' = names \<or> (\<exists>v. names' = mapSet names p v)"
    by (auto simp: assignId_def split: if_splits)
  then have "fst ` set names' \<subseteq> insert p (fst ` set names)"
    using mapSet_keys [of names p] by blast
  moreover have "fst ` set (fst (foldl (assignId mini) (names', c') paths)) \<subseteq>
      fst ` set names' \<union> set paths"
    by (rule Cons.IH)
  ultimately have "fst ` set (fst (foldl (assignId mini) (names', c') paths)) \<subseteq>
      fst ` set names \<union> set (p # paths)"
    by (simp only: list.set) blast
  then show ?case by (simp add: st)
qed

lemma linkAbsolute_keys:
  "fst ` set (fst (foldl linkAbsolute (names, idm) ms)) \<subseteq> fst ` set names \<union> fst ` set ms"
proof (induction ms arbitrary: names idm)
  case Nil
  show ?case by simp
next
  case (Cons entry ms)
  obtain names' idm' where st: "linkAbsolute (names, idm) entry = (names', idm')"
    by (cases "linkAbsolute (names, idm) entry")
  then have "names' = names \<or> (\<exists>v. names' = mapSet names (fst entry) v)"
    by (cases entry) (auto simp: linkAbsolute_def split: option.splits if_splits)
  then have "fst ` set names' \<subseteq> insert (fst entry) (fst ` set names)"
    using mapSet_keys [of names "fst entry"] by blast
  moreover have "fst ` set (fst (foldl linkAbsolute (names', idm') ms)) \<subseteq>
      fst ` set names' \<union> fst ` set ms"
    by (rule Cons.IH)
  ultimately have "fst ` set (fst (foldl linkAbsolute (names', idm') ms)) \<subseteq>
      fst ` set names \<union> fst ` set (entry # ms)"
    by (simp only: list.set image_insert) blast
  then show ?case by (simp add: st)
qed

lemma hashModuleNames_keys:
  "fst ` set (namesHashMap (hashModuleNames (newGenerator ms root mini))) \<subseteq>
     set (collectPaths ms) \<union> fst ` set ms"
proof -
  define names1 where "names1 = fst (foldl (assignId mini) ([], 0) (collectPaths ms))"
  have a: "fst ` set names1 \<subseteq> set (collectPaths ms)"
    unfolding names1_def using assignId_keys [of mini "[]" 0 "collectPaths ms"] by simp
  have b: "fst ` set (fst (foldl linkAbsolute (names1, []) ms)) \<subseteq> fst ` set names1 \<union> fst ` set ms"
    by (rule linkAbsolute_keys)
  have c: "namesHashMap (hashModuleNames (newGenerator ms root mini)) =
      fst (foldl linkAbsolute (names1, []) ms)"
    by (simp add: hashModuleNames_def newGenerator_def Let_def names1_def)
  from a b show ?thesis unfolding c by blast
qed

lemma mapGet_None: "k \<notin> fst ` set m \<Longrightarrow> mapGet m k = None"
  by (simp add: mapGet_def map_of_eq_None_iff)

lemma isAbsolute_append: "isAbsolute a \<Longrightarrow> isAbsolute (a @ b)"
  by (auto simp: isAbsolute_iff)

lemma pathNormalize_absolute: "isAbsolute p \<Longrightarrow> isAbsolute (pathNormalize p)"
  by (auto simp: pathNormalize_def Let_def isAbsolute_iff)

lemma pathJoin_absolute: "isAbsolute a \<Longrightarrow> isAbsolute (pathJoin a b)"
proof -
  assume a: "isAbsolute a"
  then have ne: "a \<noteq> []" by (auto simp: isAbsolute_iff)
  have j: "isAbsolute (joinWith ''/'' (filter (\<lambda>s. s \<noteq> []) [a, b]))"
    using a ne by (cases "b = []") (simp_all add: isAbsolute_append)
  then have "joinWith ''/'' (filter (\<lambda>s. s \<noteq> []) [a, b]) \<noteq> []"
    by (auto simp: isAbsolute_iff)
  with j show ?thesis
    by (simp add: pathJoin_def Let_def pathNormalize_absolute)
qed

lemma pathResolve2_absolute: "isAbsolute c \<Longrightarrow> isAbsolute (pathResolve2 c a b)"
  by (simp add: pathResolve2_def Let_def isAbsolute_append) (simp add: isAbsolute_def)

lemma find_Some_mem: "find P xs = Some x \<Longrightarrow> x \<in> set xs"
  by (induction xs) (auto split: if_splits)

lemma tryExtensions_absolute:
  "isAbsolute base \<Longrightarrow> fst (tryExtensions e base exts) = Some p \<Longrightarrow> isAbsolute p"
  unfolding tryExtensions_find by (auto dest!: find_Some_mem simp: isAbsolute_append)

lemma tryIndexFiles_absolute:
  "isAbsolute base \<Longrightarrow> fst (tryIndexFiles e base idx) = Some p \<Longrightarrow> isAbsolute p"
  unfolding tryIndexFiles_find by (auto dest!: find_Some_mem simp: pathJoin_absolute)

lemma resolveModulePath_absolute:
  assumes root: "isAbsolute root" and c: "isAbsolute (cwd e)"
    and r: "fst (resolveModulePath e root m f) = Some p"
  shows "isAbsolute p"
proof -
  define base where "base = resolvedBaseOf e root m f"
  have b: "isAbsolute base"
    unfolding base_def resolvedBaseOf_def using root c
    by (simp add: pathJoin_absolute pathResolve2_absolute)
  have "\<not> (startsWith m ''.'' \<or> startsWith m ''/'') \<Longrightarrow> fst (resolveModulePath e root m f) = None"
    by (simp add: resolveModulePath_def)
  with r have m: "startsWith m ''.'' \<or> startsWith m ''/''"
    by fastforce
  have "resolveModulePath e root m f =
      (case tryExtensions e base extensions of
         (Some withExt, probes) \<Rightarrow> (Some withExt, probes)
       | (None, probes) \<Rightarrow>
           (case tryIndexFiles e base indexExtensions of (r, probes') \<Rightarrow> (r, probes @ probes')))"
    unfolding base_def resolvedBaseOf_def using m by (auto simp: resolveModulePath_def Let_def)
  with r have "fst (tryExtensions e base extensions) = Some p \<or>
      fst (tryIndexFiles e base indexExtensions) = Some p"
    by (auto split: prod.splits option.splits)
  with b show ?thesis
    using tryExtensions_absolute tryIndexFiles_absolute by blast
qed

lemma resolvePythonModule_absolute:
  assumes c: "isAbsolute (cwd e)" and r: "fst (resolvePythonModule e root m f) = Some p"
  shows "isAbsolute p"
proof -
  define base where "base =
      (if startsWith m ''.'' then pathResolve2 (cwd e) (dirname f) (dotsToSep m)
       else pathResolve2 (cwd e) root (dotsToSep m))"
  have b: "isAbsolute base"
    unfolding base_def using c by (simp add: pathResolve2_absolute)
  from r have "p = base @ ''.py'' \<or> p = pathJoin base ''__init__.py''"
    unfolding base_def by (auto simp: resolvePythonModule_def Let_def split: if_splits)
  with b show ?thesis
    by (auto simp: isAbsolute_append pathJoin_absolute)
qed

lemma extractDependencies_absolute:
  assumes root: "isAbsolute root" and c: "isAbsolute (cwd e)"
    and dep: "dep \<in> set (extractDependencies e root content f lang)"
    and r: "resolved dep = Some t"
  shows "isAbsolute t"
proof -
  from dep consider m where "resolved dep = fst (resolveModulePath e root m f)"
    | m where "resolved dep = fst (resolvePythonModule e root m f)"
    by (auto simp: extractDependencies_def Let_def split: if_splits)
  then show ?thesis
  proof cases
    case 1
    with r root c show ?thesis by (metis resolveModulePath_absolute)
  next
    case 2
    with r c show ?thesis by (metis resolvePythonModule_absolute)
  qed
qed

lemma analyzed_entry:
  assumes a: "analyzed e root ms" and entry: "entry \<in> set ms"
  shows "dependents (snd entry) = [] \<and> \<not> isAbsolute (relativePath (snd entry)) \<and>
    readFile e (fst entry) \<noteq> None \<and>
    (isAbsolute root \<longrightarrow> isAbsolute (cwd e) \<longrightarrow>
       (\<forall>dep \<in> set (dependencies (snd entry)). \<forall>t. resolved dep = Some t \<longrightarrow> isAbsolute t))"
proof -
  from a entry have "analyzeFile e root (fst entry) = Some (snd entry)"
    by (simp add: analyzed_def)
  from analyzeFile_Some [OF this] show ?thesis
    by (auto simp: pathRelative_not_absolute dest: extractDependencies_absolute)
qed

lemma addBacklinks_mem:
  "entry \<in> set (addBacklinks new ms) \<Longrightarrow>
   \<exists>entry0 \<in> set ms. fst entry = fst entry0 \<and>
     snd entry = (snd entry0)\<lparr>dependents := foldl setAdd (dependents (snd entry0)) (new (fst entry0))\<rparr>"
  by (force simp: addBacklinks_def)

lemma backlinks_mem:
  "s \<in> set (backlinks ms k) \<Longrightarrow>
   \<exists>en \<in> set ms. fst en = s \<and> (\<exists>d \<in> set (dependencies (snd en)). resolved d = Some k)"
  by (auto simp: backlinks_def depBacklinks_def split: if_splits)

lemma backlinks_addBacklinks: "backlinks (addBacklinks new ms) = backlinks ms"
  by (simp add: backlinks_def addBacklinks_def comp_def fun_eq_iff)

lemma backlinks_keys: "set (backlinks ms k) \<subseteq> fst ` set ms"
  by (auto simp: backlinks_def depBacklinks_def split: if_splits)

lemma uniq_set: "set (uniq xs) = set xs"
  by (simp add: uniq_def foldl_setAdd_set)

lemma uniq_distinct: "distinct (uniq xs)"
  by (simp add: uniq_def foldl_setAdd_distinct)

lemma analyzeCodebase_linked:
  assumes "analyzeCodebase e root sel = Inr ms"
  shows "\<exists>ms0. analyzed e root ms0 \<and> ms = addBacklinks (backlinks ms0) ms0"
proof -
  from assms obtain files where "ms = resolveDependencies (analyzeFiles e root files)"
    by (auto simp: analyzeCodebase_def split: sum.splits option.splits)
  moreover have a: "analyzed e root (analyzeFiles e root files)"
    by (rule analyzeFiles_analyzed)
  ultimately have "ms = addBacklinks (backlinks (analyzeFiles e root files)) (analyzeFiles e root files)"
    by (simp add: resolveDependencies_backlinks analyzed_def)
  with a show ?thesis by blast
qed

lemma dependencyEdges_unknown:
  "resolved dep = Some t \<Longrightarrow> mapGet names t = None \<Longrightarrow>
   dependencyEdges names fromId lbl dep = [] \<and> addEdge names fromId lbl edges dep = edges"
  by (simp add: dependencyEdges_def addEdge_def)

text \<open>
  Claim C4: in the module map an analysis returns (workspace root and working directory
  absolute), the keys are distinct; the dependents of every module are keys of the map,
  none of them twice: they are the sources of the dependencies that resolve to the
  module, each once, in map order. A dependency whose resolved target is not a key of the
  map adds nothing to any list of dependents, and the renderer has no identifier for the
  target, so the dependency yields no edge.
\<close>

theorem dependents_no_dangling:
  assumes res: "analyzeCodebase e root sel = Inr ms"
    and root: "isAbsolute root" and c: "isAbsolute (cwd e)"
  shows "distinct (map fst ms) \<and>
    (\<forall>entry \<in> set ms.
       set (dependents (snd entry)) \<subseteq> fst ` set ms \<and>
       distinct (dependents (snd entry)) \<and>
       dependents (snd entry) = uniq (backlinks ms (fst entry)) \<and>
       (\<forall>s \<in> set (dependents (snd entry)). \<exists>en \<in> set ms. fst en = s \<and>
          (\<exists>d \<in> set (dependencies (snd en)). resolved d = Some (fst entry)))) \<and>
    (\<forall>entry \<in> set ms. \<forall>dep \<in> set (dependencies (snd entry)). \<forall>t.
       resolved dep = Some t \<and> t \<notin> fst ` set ms \<longrightarrow>
       (\<forall>mini fromId lbl edges.
          mapGet (namesHashMap (hashModuleNames (newGenerator ms root mini))) t = None \<and>
          dependencyEdges (namesHashMap (hashModuleNames (newGenerator ms root mini)))
            fromId lbl dep = [] \<and>
          addEdge (namesHashMap (hashModuleNames (newGenerator ms root mini)))
            fromId lbl edges dep = edges))"
proof -
  from analyzeCodebase_linked [OF res] obtain ms0
    where a: "analyzed e root ms0" and ms: "ms = addBacklinks (backlinks ms0) ms0"
    by blast
  have keys: "map fst ms = map fst ms0"
    by (simp add: ms addBacklinks_keys)
  have d: "distinct (map fst ms)"
    using a by (simp add: keys analyzed_def)
  have bl: "backlinks ms = backlinks ms0"
    by (simp add: ms backlinks_addBacklinks)
  have entry0: "\<exists>entry0 \<in> set ms0. fst entry = fst entry0 \<and>
      snd entry = (snd entry0)\<lparr>dependents := uniq (backlinks ms (fst entry))\<rparr>"
    if "entry \<in> set ms" for entry
  proof -
    from that obtain entry0 where e0: "entry0 \<in> set ms0" "fst entry = fst entry0"
      "snd entry = (snd entry0)\<lparr>dependents :=
         foldl setAdd (dependents (snd entry0)) (backlinks ms0 (fst entry0))\<rparr>"
      unfolding ms by (blast dest: addBacklinks_mem)
    from analyzed_entry [OF a e0(1)] have "dependents (snd entry0) = []" by simp
    with e0 show ?thesis by (auto simp: uniq_def bl)
  qed
  have p2: "set (dependents (snd entry)) \<subseteq> fst ` set ms \<and>
       distinct (dependents (snd entry)) \<and>
       dependents (snd entry) = uniq (backlinks ms (fst entry)) \<and>
       (\<forall>s \<in> set (dependents (snd entry)). \<exists>en \<in> set ms. fst en = s \<and>
          (\<exists>d \<in> set (dependencies (snd en)). resolved d = Some (fst entry)))"
    if "entry \<in> set ms" for entry
  proof -
    from entry0 [OF that] have eq: "dependents (snd entry) = uniq (backlinks ms (fst entry))"
      by auto
    then have "\<forall>s \<in> set (dependents (snd entry)). \<exists>en \<in> set ms. fst en = s \<and>
          (\<exists>d \<in> set (dependencies (snd en)). resolved d = Some (fst entry))"
      using backlinks_mem [of _ ms "fst entry"] by (simp add: uniq_set)
    with eq show ?thesis
      using backlinks_keys [of ms "fst entry"] by (simp add: uniq_set uniq_distinct)
  qed
  have rel: "\<forall>entry \<in> set ms. \<not> isAbsolute (relativePath (snd entry))"
  proof
    fix entry assume "entry \<in> set ms"
    from entry0 [OF this] obtain entry0 where e0: "entry0 \<in> set ms0"
      "snd entry = (snd entry0)\<lparr>dependents := uniq (backlinks ms (fst entry))\<rparr>"
      by blast
    from analyzed_entry [OF a e0(1)] e0(2) show "\<not> isAbsolute (relativePath (snd entry))"
      by simp
  qed
  have p3: "\<forall>mini fromId lbl edges.
          mapGet (namesHashMap (hashModuleNames (newGenerator ms root mini))) t = None \<and>
          dependencyEdges (namesHashMap (hashModuleNames (newGenerator ms root mini)))
            fromId lbl dep = [] \<and>
          addEdge (namesHashMap (hashModuleNames (newGenerator ms root mini)))
            fromId lbl edges dep = edges"
    if entry: "entry \<in> set ms" and dep: "dep \<in> set (dependencies (snd entry))"
      and t: "resolved dep = Some t" and nk: "t \<notin> fst ` set ms" for entry dep t
  proof -
    from entry0 [OF entry] obtain entry0 where e0: "entry0 \<in> set ms0"
      "snd entry = (snd entry0)\<lparr>dependents := uniq (backlinks ms (fst entry))\<rparr>"
      by blast
    from e0(2) dep have "dep \<in> set (dependencies (snd entry0))" by simp
    with analyzed_entry [OF a e0(1)] root c t have abs: "isAbsolute t" by blast
    have "t \<notin> set (collectPaths ms)"
      using collectPaths_not_absolute [OF rel] abs by blast
    with nk have "t \<notin> fst ` set (namesHashMap (hashModuleNames (newGenerator ms root mini)))" for mini
      using hashModuleNames_keys [of ms root mini] by blast
    then have n: "mapGet (namesHashMap (hashModuleNames (newGenerator ms root mini))) t = None" for mini
      by (rule mapGet_None)
    show ?thesis
      using dependencyEdges_unknown [OF t n] n by blast
  qed
  from d p2 p3 show ?thesis by blast
qed

lemma demo_analysis: "analyzeCodebase demoEnv ''/ws'' None = Inr demoModules"
  by code_simp

text \<open>
  In the example, \<^verbatim>\<open>b.ts\<close> has the one dependent \<^verbatim>\<open>a.ts\<close>, and the import of
  \<^verbatim>\<open>./gone\<close>, resolved to a file that is not in the map, gives no edge.
\<close>

theorem dependents_no_dangling_witness:
  "analyzeCodebase demoEnv ''/ws'' None = Inr demoModules \<and>
   map fst demoModules = [''/ws/src/a.ts'', ''/ws/src/b.ts''] \<and>
   dependents (snd (demoModules ! 1)) = [''/ws/src/a.ts''] \<and>
   dependencyEdges (namesHashMap demoGenerator) ''N1'' ''a.ts''
     \<lparr>module = ''./gone'', resolved = Some ''/ws/src/gone.ts'',
      dependencyTypes = [''import''], valid = True\<rparr> = []"
proof -
  have r: "isAbsolute ''/ws''" and c: "isAbsolute (cwd demoEnv)"
    by (simp_all add: isAbsolute_def demoEnv_def)
  note t = dependents_no_dangling [OF demo_analysis r c]
  have k: "map fst demoModules = [''/ws/src/a.ts'', ''/ws/src/b.ts'']"
    by (simp add: demoModules_def)
  have b: "demoModules ! 1 \<in> set demoModules" and a: "demoModules ! 0 \<in> set demoModules"
    by (simp_all add: demoModules_def)
  have u: "uniq (backlinks demoModules (fst (demoModules ! 1))) = [''/ws/src/a.ts'']"
    by code_simp
  from t b have "dependents (snd (demoModules ! 1)) = uniq (backlinks demoModules (fst (demoModules ! 1)))"
    by blast
  then have d: "dependents (snd (demoModules ! 1)) = [''/ws/src/a.ts'']"
    by (simp only: u)
  have dep: "\<lparr>module = ''./gone'', resolved = Some ''/ws/src/gone.ts'',
      dependencyTypes = [''import''], valid = True\<rparr> \<in> set (dependencies (snd (demoModules ! 0)))"
    by (simp add: demoModules_def)
  have res: "resolved \<lparr>module = ''./gone'', resolved = Some ''/ws/src/gone.ts'',
      dependencyTypes = [''import''], valid = True\<rparr> = Some ''/ws/src/gone.ts'' \<and>
      ''/ws/src/gone.ts'' \<notin> fst ` set demoModules"
    by (simp add: demoModules_def)
  from t a dep res have "dependencyEdges (namesHashMap (hashModuleNames (newGenerator demoModules ''/ws'' True)))
      ''N1'' ''a.ts'' \<lparr>module = ''./gone'', resolved = Some ''/ws/src/gone.ts'',
      dependencyTypes = [''import''], valid = True\<rparr> = []"
    by blast
  then have g: "dependencyEdges (namesHashMap demoGenerator) ''N1'' ''a.ts''
     \<lparr>module = ''./gone'', resolved = Some ''/ws/src/gone.ts'',
      dependencyTypes = [''import''], valid = True\<rparr> = []"
    by (simp only: demoGenerator_def)
  from demo_analysis k d g show ?thesis by (intro conjI)
qed

lemma selectedFiles_fail:
  "p \<in> set paths \<Longrightarrow> fsAt e p = None \<Longrightarrow>
   \<exists>q \<in> set paths. fsAt e q = None \<and> selectedFiles e root files paths = Inl (StatError q)"
proof (induction paths arbitrary: files)
  case Nil
  then show ?case by simp
next
  case (Cons a paths)
  show ?case
  proof (cases "fsAt e a")
    case None
    then show ?thesis by simp
  next
    case (Some n)
    with Cons.prems have "p \<in> set paths" by auto
    from Cons.IH [OF this Cons.prems(2)] Some show ?thesis
      by (cases n) (auto simp: Let_def)
  qed
qed

lemma analyzeCodebase_keys_readable:
  assumes "analyzeCodebase e root sel = Inr ms" and "k \<in> fst ` set ms"
  shows "readFile e k \<noteq> None"
proof -
  from analyzeCodebase_linked [OF assms(1)] obtain ms0
    where a: "analyzed e root ms0" and ms: "ms = addBacklinks (backlinks ms0) ms0"
    by blast
  have "map fst ms = map fst ms0"
    by (simp add: ms addBacklinks_keys)
  then have "fst ` set ms = fst ` set ms0"
    by (metis list.set_map)
  with assms(2) obtain entry0 where "entry0 \<in> set ms0" "fst entry0 = k" by auto
  with analyzed_entry [OF a] show ?thesis by blast
qed

text \<open>
  Claim C8 says that no failure on a single file or directory aborts the analysis, a
  failing \<^verbatim>\<open>stat\<close> of an explicitly selected path included. That last part does not
  hold: if \<^verbatim>\<open>stat\<close> fails on one of the selected paths, the whole analysis fails with
  that error, whatever the other paths are. The rest holds: without selected paths the
  analysis always returns a map, and a file that cannot be read is not in the map.
\<close>

theorem analyzeCodebase_stat_failure_aborts:
  "(p \<in> set paths \<and> fsAt e p = None \<longrightarrow>
      (\<exists>q \<in> set paths. fsAt e q = None \<and>
         analyzeCodebase e root (Some paths) = Inl (StatError q))) \<and>
   (\<exists>ms. analyzeCodebase e root None = Inr ms) \<and>
   (analyzeCodebase e root sel = Inr ms \<and> readFile e f = None \<longrightarrow> f \<notin> fst ` set ms)"
proof (intro conjI impI)
  assume "p \<in> set paths \<and> fsAt e p = None"
  then obtain q where "q \<in> set paths" "fsAt e q = None"
    "selectedFiles e root [] paths = Inl (StatError q)"
    using selectedFiles_fail [of p paths e root "[]"] by blast
  then show "\<exists>q \<in> set paths. fsAt e q = None \<and>
         analyzeCodebase e root (Some paths) = Inl (StatError q)"
    by (auto simp: analyzeCodebase_def getFilesFromPaths_def)
next
  show "\<exists>ms. analyzeCodebase e root None = Inr ms"
    by (simp add: analyzeCodebase_def)
next
  assume "analyzeCodebase e root sel = Inr ms \<and> readFile e f = None"
  then show "f \<notin> fst ` set ms"
    using analyzeCodebase_keys_readable by blast
qed

text \<open>
  In the example, selecting the directory \<^verbatim>\<open>src\<close> and a path that does not exist
  loses the whole analysis; the unreadable \<^verbatim>\<open>gone.ts\<close> is left out of the map.
\<close>

theorem analyzeCodebase_stat_failure_aborts_witness:
  "analyzeCodebase demoEnv ''/ws'' (Some [''/ws/src'', ''/ws/nowhere.ts'']) =
     Inl (StatError ''/ws/nowhere.ts'') \<and>
   ''/ws/src/gone.ts'' \<notin> fst ` set demoModules"
proof -
  have n: "''/ws/nowhere.ts'' \<in> set [''/ws/src'', ''/ws/nowhere.ts''] \<and>
      fsAt demoEnv ''/ws/nowhere.ts'' = None"
    by code_simp
  have s: "fsAt demoEnv ''/ws/src'' \<noteq> None"
    by code_simp
  from analyzeCodebase_stat_failure_aborts [of "''/ws/nowhere.ts''" "[''/ws/src'', ''/ws/nowhere.ts'']"
      demoEnv "''/ws''"] n
  obtain q where q: "q \<in> set [''/ws/src'', ''/ws/nowhere.ts'']" "fsAt demoEnv q = None"
    "analyzeCodebase demoEnv ''/ws'' (Some [''/ws/src'', ''/ws/nowhere.ts'']) = Inl (StatError q)"
    by blast
  with s have "q = ''/ws/nowhere.ts''" by auto
  with q have a: "analyzeCodebase demoEnv ''/ws'' (Some [''/ws/src'', ''/ws/nowhere.ts'']) =
     Inl (StatError ''/ws/nowhere.ts'')" by simp
  have u: "readFile demoEnv ''/ws/src/gone.ts'' = None"
    by code_simp
  from analyzeCodebase_stat_failure_aborts [of _ _ demoEnv "''/ws''" None demoModules "''/ws/src/gone.ts''"]
    demo_analysis u
  have "''/ws/src/gone.ts'' \<notin> fst ` set demoModules" by blast
  with a show ?thesis by (rule conjI)
qed

section \<open>Properties of external modules\<close>

text \<open>
  Dropping the unresolved external dependencies of a module map changes nothing the
  generator reads: the paths, the identifiers, the tree of directories, the edges and the
  styles are the same.
\<close>

lemma dropExternal_simps [simp]:
  "relativePath (dropExternal m) = relativePath m"
  "fileCategory (dropExternal m) = fileCategory m"
  "dependencies (dropExternal m) = filter keptDependency (dependencies m)"
  by (simp_all add: dropExternal_def)

lemma withoutExternal_Nil: "withoutExternal [] = []"
  by (simp add: withoutExternal_def)

lemma withoutExternal_Cons:
  "withoutExternal ((k, m) # ms) = (k, dropExternal m) # withoutExternal ms"
  by (simp add: withoutExternal_def)

lemma foldl_withoutExternal:
  assumes "\<And>acc k m. f acc (k, dropExternal m) = f acc (k, m)"
  shows "foldl f acc (withoutExternal ms) = foldl f acc ms"
proof (induction ms arbitrary: acc)
  case Nil
  show ?case by (simp add: withoutExternal_Nil)
next
  case (Cons entry ms)
  obtain k m where entry: "entry = (k, m)" by (cases entry)
  show ?case
    unfolding entry withoutExternal_Cons using Cons.IH assms by simp
qed

lemma collectPaths_withoutExternal: "collectPaths (withoutExternal ms) = collectPaths ms"
  unfolding collectPaths_def by (rule foldl_withoutExternal) simp

lemma mapSet_withoutExternal:
  "mapSet (withoutExternal idm) k (dropExternal m) = withoutExternal (mapSet idm k m)"
  by (induction idm) (auto simp: withoutExternal_def)

lemma linkAbsolute_withoutExternal:
  "foldl linkAbsolute (names, withoutExternal idm) (withoutExternal ms) =
     (fst (foldl linkAbsolute (names, idm) ms),
      withoutExternal (snd (foldl linkAbsolute (names, idm) ms)))"
proof (induction ms arbitrary: names idm)
  case Nil
  show ?case by (simp add: withoutExternal_Nil)
next
  case (Cons entry ms)
  obtain k m where entry: "entry = (k, m)" by (cases entry)
  obtain names' idm' where st: "linkAbsolute (names, idm) (k, m) = (names', idm')"
    by (cases "linkAbsolute (names, idm) (k, m)")
  have "linkAbsolute (names, withoutExternal idm) (k, dropExternal m) =
      (names', withoutExternal idm')"
    using st by (auto simp: linkAbsolute_def mapSet_withoutExternal split: option.splits if_splits)
  then show ?case
    using Cons.IH [of names' idm'] by (simp add: entry st withoutExternal_Cons)
qed

lemma insertAll_withoutExternal:
  "insertAll names tr (withoutExternal ms) = insertAll names tr ms"
proof (induction ms arbitrary: tr)
  case Nil
  show ?case by (simp add: withoutExternal_Nil)
next
  case (Cons entry ms)
  obtain k m where entry: "entry = (k, m)" by (cases entry)
  show ?case
    unfolding entry withoutExternal_Cons using Cons.IH by (simp split: sum.splits)
qed

lemma addEdge_unresolved: "resolved dep = None \<Longrightarrow> addEdge names fromId lbl edges dep = edges"
  by (simp add: addEdge_def)

lemma foldl_addEdge_kept:
  "foldl (addEdge names fromId lbl) edges (filter keptDependency deps) =
     foldl (addEdge names fromId lbl) edges deps"
proof (induction deps arbitrary: edges)
  case Nil
  show ?case by simp
next
  case (Cons dep deps)
  show ?case
  proof (cases "keptDependency dep")
    case True
    then show ?thesis using Cons.IH by simp
  next
    case False
    then have "resolved dep = None" by (simp add: keptDependency_def)
    then show ?thesis using False Cons.IH by (simp add: addEdge_unresolved)
  qed
qed

lemma addModuleEdges_dropExternal:
  "addModuleEdges names edges (k, dropExternal m) = addModuleEdges names edges (k, m)"
  by (simp add: addModuleEdges_def foldl_addEdge_kept split: option.splits)

lemma addModuleEdges_withoutExternal:
  "foldl (addModuleEdges names) edges (withoutExternal ms) =
     foldl (addModuleEdges names) edges ms"
  by (rule foldl_withoutExternal) (rule addModuleEdges_dropExternal)

lemma mapGet_withoutExternal:
  "mapGet (withoutExternal idm) k = map_option dropExternal (mapGet idm k)"
  by (induction idm) (simp_all add: withoutExternal_def mapGet_def)

lemma edgeStyleStep_withoutExternal:
  "edgeStyleStep (withoutExternal idm) st ed = edgeStyleStep idm st ed"
  by (cases st) (simp add: edgeStyleStep_def mapGet_withoutExternal split: option.splits)

lemma foldl_edgeStyleStep_withoutExternal:
  "foldl (edgeStyleStep (withoutExternal idm)) st edges = foldl (edgeStyleStep idm) st edges"
  by (induction edges arbitrary: st) (simp_all add: edgeStyleStep_withoutExternal)

lemma renderNodeStyles_withoutExternal:
  "renderNodeStyles (g\<lparr>genModules := ms', nodeIdToModule := withoutExternal (nodeIdToModule g)\<rparr>) =
     renderNodeStyles g"
proof -
  have "nodeIdToModule (g\<lparr>genModules := ms', nodeIdToModule := withoutExternal (nodeIdToModule g)\<rparr>)
      = withoutExternal (nodeIdToModule g)"
    by simp
  then show ?thesis
    unfolding renderNodeStyles_def by (simp only:) (rule foldl_withoutExternal, simp)
qed

lemma hashModuleNames_withoutExternal:
  "hashModuleNames (newGenerator (withoutExternal ms) root mini) =
     (hashModuleNames (newGenerator ms root mini))
       \<lparr>genModules := withoutExternal ms,
        nodeIdToModule :=
          withoutExternal (nodeIdToModule (hashModuleNames (newGenerator ms root mini)))\<rparr>"
proof -
  have e: "([] :: (string \<times> CodebaseModule) list) = withoutExternal []"
    by (simp add: withoutExternal_Nil)
  show ?thesis
    unfolding hashModuleNames_def newGenerator_def Let_def
    by (simp add: collectPaths_withoutExternal)
       (subst (1 2) e, simp add: linkAbsolute_withoutExternal)
qed

lemma generate_withoutExternal:
  "fst (generate (newGenerator (withoutExternal ms) root mini)) =
   fst (generate (newGenerator ms root mini))"
proof -
  define g where "g = hashModuleNames (newGenerator ms root mini)"
  define gh where "gh = g\<lparr>genModules := withoutExternal ms,
        nodeIdToModule := withoutExternal (nodeIdToModule g)\<rparr>"
  have h: "hashModuleNames (newGenerator (withoutExternal ms) root mini) = gh"
    unfolding gh_def g_def by (rule hashModuleNames_withoutExternal)
  have gm: "genModules g = ms"
    by (simp add: g_def hashModuleNames_def newGenerator_def Let_def)
  have a: "convertSubgraphSources gh = convertSubgraphSources g"
    by (simp add: convertSubgraphSources_def gh_def insertAll_withoutExternal gm)
  have b: "convertEdgeSources gh = convertEdgeSources g"
    by (simp add: convertEdgeSources_def gh_def addModuleEdges_withoutExternal gm)
  have c: "renderNodeStyles gh = renderNodeStyles g"
    unfolding gh_def by (rule renderNodeStyles_withoutExternal)
  have d: "renderEdgeStyles gh = renderEdgeStyles g"
    by (simp add: renderEdgeStyles_def gh_def foldl_edgeStyleStep_withoutExternal fun_eq_iff)
  have m: "minify gh = minify g"
    by (simp add: gh_def)
  show ?thesis
    unfolding generate_cases h g_def [symmetric] a b c d m
    by (cases "convertSubgraphSources g") simp_all
qed

text \<open>The resolver and the extractor on external paths.\<close>

lemma resolveModulePath_external:
  "isExternal m \<Longrightarrow> resolveModulePath e root m f = (None, [])"
  by (simp add: resolveModulePath_def isExternal_def)

lemma extractDependencies_external:
  assumes lang: "lang = ''typescript'' \<or> lang = ''javascript''"
    and dep: "dep \<in> set (extractDependencies e root content f lang)"
    and ext: "isExternal (module dep)"
  shows "resolved dep = None \<and> \<not> valid dep"
proof -
  from lang dep have "resolved dep = fst (resolveModulePath e root (module dep) f) \<and>
      valid dep = (resolved dep \<noteq> None)"
    by (auto simp: extractDependencies_def Let_def)
  with ext show ?thesis
    by (simp add: resolveModulePath_external)
qed

lemma lodash_matches:
  "importMatches ''import lodash from \"lodash\"'' = [''lodash''] \<and>
   requireMatches ''import lodash from \"lodash\"'' = []"
  by code_simp

lemma lodash_external: "isExternal ''lodash''"
  by code_simp

lemma demo_dependencies:
  "extractDependencies demoEnv ''/ws''
     (''import {x} from \"./b\"; import lodash from \"lodash\"; '' @
      ''import g from \"./gone\"; const y = require(\"./b\")'')
     ''/ws/src/a.ts'' ''typescript'' =
   [\<lparr>module = ''./b'', resolved = Some ''/ws/src/b.ts'',
       dependencyTypes = [''import''], valid = True\<rparr>,
    \<lparr>module = ''lodash'', resolved = None,
       dependencyTypes = [''import''], valid = False\<rparr>,
    \<lparr>module = ''./gone'', resolved = Some ''/ws/src/gone.ts'',
       dependencyTypes = [''import''], valid = True\<rparr>,
    \<lparr>module = ''./b'', resolved = Some ''/ws/src/b.ts'',
       dependencyTypes = [''require''], valid = True\<rparr>]"
  by code_simp

lemma demo_withoutExternal:
  "withoutExternal demoModules =
     [(''/ws/src/a.ts'',
       \<lparr>source = ''/ws/src/a.ts'', relativePath = ''src/a.ts'',
          fileName = ''a.ts'', languageId = ''typescript'',
          fileCategory = Entry,
          dependencies =
            [\<lparr>module = ''./b'', resolved = Some ''/ws/src/b.ts'',
                dependencyTypes = [''import''], valid = True\<rparr>,
             \<lparr>module = ''./gone'', resolved = Some ''/ws/src/gone.ts'',
                dependencyTypes = [''import''], valid = True\<rparr>,
             \<lparr>module = ''./b'', resolved = Some ''/ws/src/b.ts'',
                dependencyTypes = [''require''], valid = True\<rparr>],
          dependents = [], functionNames = [''require''], exports = []\<rparr>),
      (''/ws/src/b.ts'',
       \<lparr>source = ''/ws/src/b.ts'', relativePath = ''src/b.ts'',
          fileName = ''b.ts'', languageId = ''typescript'',
          fileCategory = Entry, dependencies = [],
          dependents = [''/ws/src/a.ts''], functionNames = [],
          exports = [''x'']\<rparr>)]"
  by code_simp

text \<open>
  Claim C5: a JavaScript or TypeScript import path that begins neither with \<^verbatim>\<open>.\<close> nor
  with \<^verbatim>\<open>/\<close> is resolved to nothing without a single probe of the file system; every
  dependency the extractor records for such a path in a JavaScript or TypeScript file has
  no resolved path and is not valid, and \<^verbatim>\<open>import lodash from "lodash"\<close> gives exactly one
  such dependency; a dependency without a resolved path adds no edge; and the diagram
  rendered from a module map is the diagram rendered from the map without its unresolved
  external dependencies, so no line of the text comes from one of them.
\<close>

theorem external_module_short_circuit:
  "(isExternal m \<longrightarrow> resolveModulePath e root m f = (None, [])) \<and>
   ((lang = ''typescript'' \<or> lang = ''javascript'') \<longrightarrow>
      (\<forall>dep \<in> set (extractDependencies e root content f lang).
         isExternal (module dep) \<longrightarrow> resolved dep = None \<and> \<not> valid dep)) \<and>
   extractDependencies e root ''import lodash from \"lodash\"'' f ''typescript'' =
     [\<lparr>module = ''lodash'', resolved = None, dependencyTypes = [''import''], valid = False\<rparr>] \<and>
   (resolved d = None \<longrightarrow>
      dependencyEdges names fromId lbl d = [] \<and> addEdge names fromId lbl edges d = edges) \<and>
   fst (generate (newGenerator (withoutExternal ms) r mini)) =
     fst (generate (newGenerator ms r mini))"
proof (intro conjI)
  show "isExternal m \<longrightarrow> resolveModulePath e root m f = (None, [])"
    by (simp add: resolveModulePath_external)
  show "(lang = ''typescript'' \<or> lang = ''javascript'') \<longrightarrow>
      (\<forall>dep \<in> set (extractDependencies e root content f lang).
         isExternal (module dep) \<longrightarrow> resolved dep = None \<and> \<not> valid dep)"
    using extractDependencies_external by blast
  have "resolveModulePath e root ''lodash'' f = (None, [])"
    using lodash_external by (rule resolveModulePath_external)
  then show "extractDependencies e root ''import lodash from \"lodash\"'' f ''typescript'' =
     [\<lparr>module = ''lodash'', resolved = None, dependencyTypes = [''import''], valid = False\<rparr>]"
    by (simp add: extractDependencies_def lodash_matches)
  show "resolved d = None \<longrightarrow>
      dependencyEdges names fromId lbl d = [] \<and> addEdge names fromId lbl edges d = edges"
    by (simp add: dependencyEdges_def addEdge_def)
  show "fst (generate (newGenerator (withoutExternal ms) r mini)) =
     fst (generate (newGenerator ms r mini))"
    by (rule generate_withoutExternal)
qed

text \<open>
  In the example workspace: \<^verbatim>\<open>lodash\<close> is resolved to nothing without a probe, the
  extractor records it for \<^verbatim>\<open>a.ts\<close> unresolved and not valid, it adds no edge from the node
  of \<^verbatim>\<open>a.ts\<close>, and the text rendered without it is the text of the example.
\<close>

theorem external_module_short_circuit_witness:
  "isExternal ''lodash'' \<and>
   resolveModulePath demoEnv ''/ws'' ''lodash'' ''/ws/src/a.ts'' = (None, []) \<and>
   \<lparr>module = ''lodash'', resolved = None, dependencyTypes = [''import''], valid = False\<rparr>
     \<in> set (extractDependencies demoEnv ''/ws''
              (''import {x} from \"./b\"; import lodash from \"lodash\"; '' @
               ''import g from \"./gone\"; const y = require(\"./b\")'')
              ''/ws/src/a.ts'' ''typescript'') \<and>
   dependencyEdges (namesHashMap demoGenerator) ''N1'' ''a.ts''
     \<lparr>module = ''lodash'', resolved = None, dependencyTypes = [''import''], valid = False\<rparr> = [] \<and>
   addEdge (namesHashMap demoGenerator) ''N1'' ''a.ts'' []
     \<lparr>module = ''lodash'', resolved = None, dependencyTypes = [''import''], valid = False\<rparr> = [] \<and>
   withoutExternal demoModules \<noteq> demoModules \<and>
   fst (generate (newGenerator (withoutExternal demoModules) ''/ws'' True)) = Inr demoText"
proof -
  define lodash where
    "lodash = \<lparr>module = ''lodash'', resolved = None, dependencyTypes = [''import''], valid = False\<rparr>"
  define content where
    "content = ''import {x} from \"./b\"; import lodash from \"lodash\"; '' @
               ''import g from \"./gone\"; const y = require(\"./b\")''"
  note t = external_module_short_circuit [where m = "''lodash''" and e = demoEnv
      and root = "''/ws''" and f = "''/ws/src/a.ts''" and lang = "''typescript''"
      and content = content and d = lodash and names = "namesHashMap demoGenerator"
      and fromId = "''N1''" and lbl = "''a.ts''" and edges = "[]" and ms = demoModules
      and r = "''/ws''" and mini = True]
  have x: "isExternal ''lodash''"
    by (rule lodash_external)
  have mem: "lodash \<in> set (extractDependencies demoEnv ''/ws'' content ''/ws/src/a.ts'' ''typescript'')"
    unfolding content_def lodash_def demo_dependencies by simp
  have un: "resolved lodash = None" "module lodash = ''lodash''"
    by (simp_all add: lodash_def)
  from t x have a: "resolveModulePath demoEnv ''/ws'' ''lodash'' ''/ws/src/a.ts'' = (None, [])"
    by blast
  from t mem x un have b: "resolved lodash = None \<and> \<not> valid lodash"
    by (simp only: simp_thms)
  from t un have c: "dependencyEdges (namesHashMap demoGenerator) ''N1'' ''a.ts'' lodash = []"
    and d: "addEdge (namesHashMap demoGenerator) ''N1'' ''a.ts'' [] lodash = []"
    by blast+
  from t have g: "fst (generate (newGenerator (withoutExternal demoModules) ''/ws'' True)) =
      fst (generate (newGenerator demoModules ''/ws'' True))"
    by blast
  have ne: "withoutExternal demoModules \<noteq> demoModules"
    by (subst demo_withoutExternal) (simp add: demoModules_def)
  show ?thesis
    using x a mem c d ne g unfolding lodash_def content_def
    by (simp only: demo_generate fst_conv simp_thms)
qed

section \<open>Properties of the rendered text\<close>

text \<open>Splitting into lines.\<close>

lemma splitChar_not_Nil: "splitChar c s \<noteq> []"
  by (induction s) (auto split: list.splits)

lemma splitChar_append:
  "splitChar c (a @ c # b) = splitChar c a @ splitChar c b"
proof (induction a)
  case Nil
  show ?case by simp
next
  case (Cons x a)
  obtain w ws where w: "splitChar c a = w # ws"
    using splitChar_not_Nil [of c a] by (cases "splitChar c a") auto
  show ?case
    using Cons.IH by (simp add: w)
qed

lemma splitChar_joinWith:
  "xs \<noteq> [] \<Longrightarrow> \<forall>x \<in> set xs. c \<notin> set x \<Longrightarrow> splitChar c (joinWith [c] xs) = xs"
proof (induction "[c]" xs rule: joinWith.induct)
  case 1
  then show ?case by simp
next
  case (2 x)
  then show ?case by (simp add: splitChar_no_sep)
next
  case (3 x y ys)
  have "splitChar c (x @ c # joinWith [c] (y # ys)) =
      splitChar c x @ splitChar c (joinWith [c] (y # ys))"
    by (rule splitChar_append)
  with 3 show ?case by (simp add: splitChar_no_sep)
qed

text \<open>Plain lines and plain texts.\<close>

lemma startsWith_prefix: "startsWith (p @ b) p"
  by (induction p) simp_all

lemma strIncludes_startsWith: "startsWith s p \<Longrightarrow> strIncludes s p"
  by (cases s) simp_all

lemma strIncludes_middle: "strIncludes (a @ p @ b) p"
  by (induction a) (simp_all add: strIncludes_startsWith startsWith_prefix)

lemma startsWith_set: "startsWith s p \<Longrightarrow> set p \<subseteq> set s"
  by (induction s p rule: startsWith.induct) auto

lemma strIncludes_set: "strIncludes s p \<Longrightarrow> set p \<subseteq> set s"
proof (induction s)
  case Nil
  then show ?case using startsWith_set [of "[]" p] by simp
next
  case (Cons c cs)
  then show ?case using startsWith_set [of "c # cs" p] by auto
qed

lemma plainLine_not_edge: "plainLine l \<Longrightarrow> \<not> isEdgeLine l"
  using strIncludes_set [of l "''-->''"] by (auto simp: plainLine_def isEdgeLine_def)

lemma plainLine_not_style: "plainLine l \<Longrightarrow> \<not> isLinkStyle l"
  by (simp add: plainLine_def)

lemma plainText_lines:
  "plainText s \<Longrightarrow>
   filter isEdgeLine (splitChar newline s) = [] \<and> filter isLinkStyle (splitChar newline s) = []"
  by (auto simp: plainText_def filter_empty_conv plainLine_not_edge plainLine_not_style)

lemma plainText_Nil: "plainText []"
  by (simp add: plainText_def plainLine_def isLinkStyle_def)

lemma plainText_line: "newline \<notin> set l \<Longrightarrow> plainLine l \<Longrightarrow> plainText l"
  by (simp add: plainText_def splitChar_no_sep)

lemma plainText_append: "plainText a \<Longrightarrow> plainText b \<Longrightarrow> plainText (a @ newline # b)"
  by (auto simp: plainText_def splitChar_append)

lemma plainText_joinWith:
  "\<forall>x \<in> set xs. plainText x \<Longrightarrow> plainText (joinWith [newline] xs)"
proof (induction "[newline]" xs rule: joinWith.induct)
  case 1
  show ?case by (simp add: plainText_Nil)
next
  case (2 x)
  then show ?case by simp
next
  case (3 x y ys)
  then have "plainText (x @ newline # joinWith [newline] (y # ys))"
    by (intro plainText_append) simp_all
  then show ?case by simp
qed

text \<open>The identifiers a new generator with the flag set gives out are minified.\<close>

lemma digitChar_not_gt: "d < 36 \<Longrightarrow> digitChar d \<noteq> CHR ''>''"
proof
  assume d: "d < 36" and eq: "digitChar d = CHR ''>''"
  have "(of_char (digitChar d) :: nat) = (if d < 10 then 48 + d else 55 + d)"
    using d by (simp add: digitChar_def)
  then show False using eq by (simp split: if_splits)
qed

lemma toStringRadix_no_gt:
  "2 \<le> b \<Longrightarrow> b \<le> 36 \<Longrightarrow> CHR ''>'' \<notin> set (toStringRadix b n)"
proof (induction b n rule: toStringRadix.induct)
  case (1 b n)
  show ?case
  proof (cases "n < b")
    case True
    with "1.prems" have "digitChar n \<noteq> CHR ''>''"
      by (intro digitChar_not_gt) simp
    with True show ?thesis
      by (subst toStringRadix.simps) simp
  next
    case False
    have "n mod b < b"
      using "1.prems" by simp
    with "1.prems" have "n mod b < 36"
      by linarith
    then have d: "digitChar (n mod b) \<noteq> CHR ''>''"
      by (rule digitChar_not_gt)
    have "CHR ''>'' \<notin> set (toStringRadix b (n div b))"
      using "1.IH" "1.prems" False by simp
    with d False "1.prems" show ?thesis
      by (subst toStringRadix.simps) auto
  qed
qed

lemma minifiedId_counter: "minifiedId (''N'' @ toStringRadix 36 n)"
  using toStringRadix_no_newline [of 36 n] toStringRadix_no_gt [of 36 n]
  by (simp add: minifiedId_def newline_def)

lemma minifiedId_not_style: "minifiedId i \<Longrightarrow> \<not> isLinkStyle (i @ r)"
  by (cases i) (auto simp: minifiedId_def isLinkStyle_def)

lemma mapGet_mem: "mapGet m k = Some v \<Longrightarrow> (k, v) \<in> set m"
  by (simp add: mapGet_def map_of_SomeD)

lemma mapSet_values:
  "\<forall>entry \<in> set m. P (snd entry) \<Longrightarrow> P v \<Longrightarrow> \<forall>entry \<in> set (mapSet m k v). P (snd entry)"
  using mapSet_set [of m k v] by auto

lemma mapSet_key_values:
  "\<forall>entry \<in> set m. P (fst entry) \<Longrightarrow> P k \<Longrightarrow> \<forall>entry \<in> set (mapSet m k v). P (fst entry)"
  using mapSet_set [of m k v] by auto

lemma assignId_minified:
  "\<forall>entry \<in> set names. minifiedId (snd entry) \<Longrightarrow>
   \<forall>entry \<in> set (fst (foldl (assignId True) (names, c) paths)). minifiedId (snd entry)"
proof (induction paths arbitrary: names c)
  case Nil
  then show ?case by simp
next
  case (Cons p paths)
  obtain names' c' where st: "assignId True (names, c) p = (names', c')"
    by (cases "assignId True (names, c) p")
  then have "names' = names \<or> names' = mapSet names p (''N'' @ toStringRadix 36 c)"
    by (auto simp: assignId_def split: if_splits)
  then have "\<forall>entry \<in> set names'. minifiedId (snd entry)"
    using Cons.prems mapSet_values [of names minifiedId "''N'' @ toStringRadix 36 c" p]
      minifiedId_counter [of c]
    by blast
  then show ?case
    using Cons.IH [of names' c'] by (simp add: st)
qed

lemma linkAbsolute_minified:
  "\<forall>entry \<in> set names. minifiedId (snd entry) \<Longrightarrow> \<forall>entry \<in> set idm. minifiedId (fst entry) \<Longrightarrow>
   (\<forall>entry \<in> set (fst (foldl linkAbsolute (names, idm) ms)). minifiedId (snd entry)) \<and>
   (\<forall>entry \<in> set (snd (foldl linkAbsolute (names, idm) ms)). minifiedId (fst entry))"
proof (induction ms arbitrary: names idm)
  case Nil
  then show ?case by simp
next
  case (Cons entry ms)
  obtain k m where entry: "entry = (k, m)" by (cases entry)
  obtain names' idm' where st: "linkAbsolute (names, idm) (k, m) = (names', idm')"
    by (cases "linkAbsolute (names, idm) (k, m)")
  then have "(names' = names \<and> idm' = idm) \<or>
      (\<exists>i. mapGet names (relativePath m) = Some i \<and> names' = mapSet names k i \<and>
           idm' = mapSet idm i m)"
    by (auto simp: linkAbsolute_def split: option.splits if_splits)
  then have "(\<forall>entry \<in> set names'. minifiedId (snd entry)) \<and>
      (\<forall>entry \<in> set idm'. minifiedId (fst entry))"
  proof
    assume "names' = names \<and> idm' = idm"
    with Cons.prems show ?thesis by simp
  next
    assume "\<exists>i. mapGet names (relativePath m) = Some i \<and> names' = mapSet names k i \<and>
           idm' = mapSet idm i m"
    then obtain i where i: "mapGet names (relativePath m) = Some i"
      and n: "names' = mapSet names k i" and d: "idm' = mapSet idm i m"
      by blast
    from i have "(relativePath m, i) \<in> set names"
      by (rule mapGet_mem)
    with Cons.prems have mi: "minifiedId i"
      by force
    show ?thesis
      unfolding n d
      using mapSet_values [of names minifiedId i k] mapSet_key_values [of idm minifiedId i m]
        Cons.prems mi
      by blast
  qed
  then show ?case
    using Cons.IH [of names' idm'] by (simp add: entry st)
qed

lemma hashModuleNames_minified:
  "(\<forall>entry \<in> set (namesHashMap (hashModuleNames (newGenerator ms root True))).
      minifiedId (snd entry)) \<and>
   (\<forall>entry \<in> set (nodeIdToModule (hashModuleNames (newGenerator ms root True))).
      minifiedId (fst entry)) \<and>
   minify (hashModuleNames (newGenerator ms root True)) \<and>
   genModules (hashModuleNames (newGenerator ms root True)) = ms"
proof -
  define names1 where "names1 = fst (foldl (assignId True) ([], 0) (collectPaths ms))"
  have a: "\<forall>entry \<in> set names1. minifiedId (snd entry)"
    unfolding names1_def by (rule assignId_minified) simp
  have c: "namesHashMap (hashModuleNames (newGenerator ms root True)) =
      fst (foldl linkAbsolute (names1, []) ms)"
    "nodeIdToModule (hashModuleNames (newGenerator ms root True)) =
      snd (foldl linkAbsolute (names1, []) ms)"
    "minify (hashModuleNames (newGenerator ms root True))"
    "genModules (hashModuleNames (newGenerator ms root True)) = ms"
    by (simp_all add: hashModuleNames_def newGenerator_def Let_def names1_def)
  show ?thesis
    using c linkAbsolute_minified [of names1 "[]" ms] a by simp
qed

text \<open>The tree of folders and files is well named, and its text is plain.\<close>

lemma wellNamed_node:
  "wellNamed (TreeNode n t c) =
     ((\<forall>i. n = Some i \<longrightarrow> minifiedId i) \<and> (\<forall>entry \<in> set c. wellNamed (snd entry)))"
  by (subst wellNamed.simps) auto

lemma insertPath_wellNamed:
  "\<forall>entry \<in> set names. minifiedId (snd entry) \<Longrightarrow> \<forall>entry \<in> set cs. wellNamed (snd entry) \<Longrightarrow>
   insertPath names front segs cs = Inr cs' \<Longrightarrow> \<forall>entry \<in> set cs'. wellNamed (snd entry)"
proof (induction segs arbitrary: front cs cs')
  case Nil
  then show ?case by simp
next
  case (Cons cur rest)
  show ?case
  proof (cases "map_of cs cur")
    case (Some node)
    obtain n t sub where node: "node = TreeNode n t sub" by (cases node)
    from Some have mem: "(cur, TreeNode n t sub) \<in> set cs"
      unfolding node by (rule map_of_SomeD)
    with Cons.prems(2) have wn: "wellNamed (TreeNode n t sub)"
      by force
    from Cons.prems(3) Some node obtain sub' where
      sub': "insertPath names (front @ [cur]) rest sub = Inr sub'"
      and cs': "cs' = mapSet cs cur (TreeNode n t sub')"
      by (auto split: sum.splits)
    from wn have "\<forall>entry \<in> set sub. wellNamed (snd entry)"
      by (simp add: wellNamed_node)
    with Cons.IH [OF Cons.prems(1) _ sub'] have "\<forall>entry \<in> set sub'. wellNamed (snd entry)"
      by blast
    with wn have "wellNamed (TreeNode n t sub')"
      by (simp add: wellNamed_node)
    then show ?thesis
      unfolding cs' using mapSet_values [of cs wellNamed "TreeNode n t sub'" cur] Cons.prems(2)
      by blast
  next
    case None
    show ?thesis
    proof (cases "cur \<in> set objectPrototypeNames")
      case True
      with Cons.prems(3) None have "cs' = cs"
        by (auto split: if_splits)
      with Cons.prems(2) show ?thesis by simp
    next
      case False
      with Cons.prems(3) None obtain sub' where
        sub': "insertPath names (front @ [cur]) rest [] = Inr sub'"
        and cs': "cs' = cs @ [(cur, TreeNode (mapGet names (joinWith sep (front @ [cur]))) cur sub')]"
        by (auto split: sum.splits)
      from Cons.IH [OF Cons.prems(1) _ sub'] have s: "\<forall>entry \<in> set sub'. wellNamed (snd entry)"
        by simp
      have "minifiedId i" if "mapGet names (joinWith sep (front @ [cur])) = Some i" for i
        using mapGet_mem [OF that] Cons.prems(1) by force
      with s have "wellNamed (TreeNode (mapGet names (joinWith sep (front @ [cur]))) cur sub')"
        by (simp add: wellNamed_node)
      with Cons.prems(2) show ?thesis
        unfolding cs' by simp
    qed
  qed
qed

lemma insertAll_wellNamed:
  "\<forall>entry \<in> set names. minifiedId (snd entry) \<Longrightarrow> \<forall>entry \<in> set tr. wellNamed (snd entry) \<Longrightarrow>
   insertAll names tr ms = Inr tr' \<Longrightarrow> \<forall>entry \<in> set tr'. wellNamed (snd entry)"
proof (induction ms arbitrary: tr)
  case Nil
  then show ?case by simp
next
  case (Cons entry ms)
  obtain k m where entry: "entry = (k, m)" by (cases entry)
  from Cons.prems(3) obtain tr1 where
    one: "insertPath names [] (pathSegments (relativePath m)) tr = Inr tr1"
    and rest: "insertAll names tr1 ms = Inr tr'"
    unfolding entry by (auto split: sum.splits)
  from insertPath_wellNamed [OF Cons.prems(1) Cons.prems(2) one]
  have "\<forall>entry \<in> set tr1. wellNamed (snd entry)" .
  from Cons.IH [OF Cons.prems(1) this rest] show ?case .
qed

lemma replaceChar_removes: "c \<notin> set r \<Longrightarrow> c \<notin> set (replaceChar c r s)"
  by (induction s) (simp_all add: replaceChar_def)

lemma replaceChar_keeps_out:
  "c \<notin> set r \<Longrightarrow> c \<notin> set s \<Longrightarrow> c \<notin> set (replaceChar d r s)"
  by (induction s) (simp_all add: replaceChar_def)

lemma escapeMermaidText_chars:
  "newline \<notin> set (escapeMermaidText t) \<and> CHR ''>'' \<notin> set (escapeMermaidText t)"
proof -
  have "newline \<notin> set (escapeMermaidText t)"
    unfolding escapeMermaidText_def by (rule replaceChar_removes) (simp add: newline_def)
  moreover have "CHR ''>'' \<notin> set (escapeMermaidText t)"
    unfolding escapeMermaidText_def
    by (rule replaceChar_keeps_out, simp, rule replaceChar_removes, simp)
  ultimately show ?thesis ..
qed

lemma renderNode_chars:
  assumes "\<And>i. n = Some i \<Longrightarrow> minifiedId i"
  shows "newline \<notin> set (renderNode n t) \<and> CHR ''>'' \<notin> set (renderNode n t) \<and>
    \<not> isLinkStyle (renderNode n t)"
proof (cases n)
  case None
  then show ?thesis
    using escapeMermaidText_chars [of t]
    by (simp add: renderNode_def newline_def isLinkStyle_def)
next
  case (Some i)
  with assms have mi: "minifiedId i" by simp
  have r: "renderNode n t = i @ [CHR ''['', CHR 0x22] @
      (if length t > 0 then escapeMermaidText t else '' '') @ [CHR 0x22, CHR '']'']"
    by (simp add: renderNode_def Some)
  show ?thesis
    unfolding r using mi minifiedId_not_style [OF mi] escapeMermaidText_chars [of t]
    by (simp add: minifiedId_def newline_def)
qed

lemma renderNode_plain:
  assumes "\<And>i. n = Some i \<Longrightarrow> minifiedId i"
  shows "plainText (renderNode n t)" "plainText (''subgraph '' @ renderNode n t)"
proof -
  note c = renderNode_chars [of n t, OF assms]
  from c show "plainText (renderNode n t)"
    by (intro plainText_line) (simp_all add: plainLine_def)
  from c show "plainText (''subgraph '' @ renderNode n t)"
    by (intro plainText_line) (simp_all add: plainLine_def isLinkStyle_def newline_def)
qed

lemma plainText_end: "plainText ''end''"
  by code_simp

lemma render_plain:
  "mini \<Longrightarrow> \<forall>entry \<in> set src. wellNamed (snd entry) \<Longrightarrow> plainText (renderSubgraphs mini src depth)"
  "mini \<Longrightarrow> wellNamed (snd item) \<Longrightarrow> plainText (renderItem mini depth item)"
proof (induction mini src depth and mini depth item rule: renderSubgraphs_renderItem.induct)
  case (1 mini src depth)
  have "\<forall>x \<in> set (map (renderItem mini depth) (orderedEntries src)). plainText x"
    using 1 by (auto simp: orderedEntries_set)
  then have "plainText (joinWith [newline] (map (renderItem mini depth) (orderedEntries src)))"
    by (rule plainText_joinWith)
  then show ?case by simp
next
  case (2 mini depth name n t c)
  from "2.prems" have ids: "\<And>i. n = Some i \<Longrightarrow> minifiedId i"
    and sub: "\<forall>entry \<in> set c. wellNamed (snd entry)"
    by (simp_all add: wellNamed_node)
  have s: "plainText (renderSubgraphs mini c (depth + 1))"
    using "2.IH" "2.prems"(1) sub by simp
  show ?case
  proof (cases "renderSubgraphs mini c (depth + 1) = []")
    case True
    with "2.prems"(1) renderNode_plain(1) [of n t, OF ids] show ?thesis
      by (simp del: renderSubgraphs.simps)
  next
    case False
    have "plainText ((''subgraph '' @ renderNode n t) @ newline #
        (renderSubgraphs mini c (depth + 1) @ newline # ''end''))"
      using renderNode_plain(2) [of n t, OF ids] s plainText_end
      by (intro plainText_append)
    with False "2.prems"(1) show ?thesis
      by (simp del: renderSubgraphs.simps)
  qed
qed

text \<open>The edges join minified identifiers, and their lines are edge statements.\<close>

lemma keepFirst_subset: "set (keepFirst key xs) \<subseteq> set xs"
proof (induction key xs rule: keepFirst.induct)
  case (1 key)
  show ?case by simp
next
  case (2 key x xs)
  have "set (filter (\<lambda>y. key y \<noteq> key x) xs) \<subseteq> set xs"
    by simp
  with 2 show ?case
    by (simp add: subset_insertI2 order_trans)
qed

lemma dependencyEdges_nodes:
  assumes "ed \<in> set (dependencyEdges names fromId lbl dep)"
  shows "fromNode ed = fromId \<and> (\<exists>target. mapGet names target = Some (toNode ed))"
proof (cases "resolved dep")
  case None
  with assms show ?thesis by (simp add: dependencyEdges_def)
next
  case (Some target)
  show ?thesis
  proof (cases "mapGet names target")
    case None
    with assms Some show ?thesis by (simp add: dependencyEdges_def)
  next
    case toId: (Some toId)
    show ?thesis
    proof (cases "target \<noteq> [] \<and> valid dep \<and> toId \<noteq> []")
      case True
      with assms Some toId have "ed = \<lparr>fromNode = fromId, fromText = lbl, toNode = toId,
          toText = basename target\<rparr>"
        by (simp add: dependencyEdges_def)
      with toId show ?thesis by auto
    next
      case False
      with assms Some toId show ?thesis by (simp add: dependencyEdges_def)
    qed
  qed
qed

lemma moduleEdges_nodes:
  assumes "ed \<in> set (moduleEdges names entry)"
  shows "(\<exists>k. mapGet names k = Some (fromNode ed)) \<and> (\<exists>target. mapGet names target = Some (toNode ed))"
proof (cases "mapGet names (fst entry)")
  case None
  with assms show ?thesis by (simp add: moduleEdges_def)
next
  case (Some fromId)
  show ?thesis
  proof (cases "fromId = []")
    case True
    with assms Some show ?thesis by (simp add: moduleEdges_def)
  next
    case False
    with assms Some obtain dep where
      "ed \<in> set (dependencyEdges names fromId (basename (relativePath (snd entry))) dep)"
      by (auto simp: moduleEdges_def)
    from dependencyEdges_nodes [OF this] Some show ?thesis by blast
  qed
qed

lemma edges_minified:
  assumes "\<forall>entry \<in> set (namesHashMap g). minifiedId (snd entry)"
    and "ed \<in> set (convertEdgeSources g)"
  shows "minifiedId (fromNode ed) \<and> minifiedId (toNode ed)"
proof -
  have v: "minifiedId i" if "mapGet (namesHashMap g) k = Some i" for k i
    using mapGet_mem [OF that] assms(1) by force
  from assms(2) have "ed \<in> set (keepFirst edgeKey (edgeCandidates (namesHashMap g) (genModules g)))"
    by (simp only: convertEdgeSources_keepFirst)
  then have "ed \<in> set (edgeCandidates (namesHashMap g) (genModules g))"
    by (rule subsetD [OF keepFirst_subset])
  then obtain entry where "ed \<in> set (moduleEdges (namesHashMap g) entry)"
    by (auto simp: edgeCandidates_def)
  from moduleEdges_nodes [OF this] v show ?thesis by blast
qed

lemma edgeLine_props:
  assumes "minifiedId (fromNode ed)" "minifiedId (toNode ed)"
  shows "newline \<notin> set (edgeLine ed)" "isEdgeLine (edgeLine ed)" "\<not> isLinkStyle (edgeLine ed)"
proof -
  show "newline \<notin> set (edgeLine ed)"
    using assms by (simp add: edgeLine_def minifiedId_def newline_def)
  show "isEdgeLine (edgeLine ed)"
    unfolding edgeLine_def isEdgeLine_def by (rule strIncludes_middle)
  show "\<not> isLinkStyle (edgeLine ed)"
    unfolding edgeLine_def using assms(1) by (rule minifiedId_not_style)
qed

lemma renderEdges_edgeLine: "renderEdges edges = joinWith [newline] (map edgeLine edges)"
  by (simp add: renderEdges_def edgeLine_def [abs_def])

lemma renderEdges_lines:
  assumes "\<forall>ed \<in> set edges. minifiedId (fromNode ed) \<and> minifiedId (toNode ed)"
  shows "filter isEdgeLine (splitChar newline (renderEdges edges)) = map edgeLine edges \<and>
    filter isLinkStyle (splitChar newline (renderEdges edges)) = []"
proof (cases "edges = []")
  case True
  then show ?thesis
    by (simp add: renderEdges_edgeLine isEdgeLine_def isLinkStyle_def)
next
  case False
  have "splitChar newline (renderEdges edges) = map edgeLine edges"
    unfolding renderEdges_edgeLine
    using False assms by (intro splitChar_joinWith) (auto simp: edgeLine_props)
  then show ?thesis
    using assms by (auto simp: filter_empty_conv edgeLine_props filter_id_conv)
qed

text \<open>The node styles are plain.\<close>

lemma getNodeStyleClass_chars:
  "newline \<notin> set (getNodeStyleClass cat) \<and> CHR ''>'' \<notin> set (getNodeStyleClass cat)"
  by (cases cat) (simp_all add: newline_def)

lemma nodeStyle_plain:
  "minifiedId i \<Longrightarrow> plainText (''class '' @ i @ '' '' @ getNodeStyleClass cat)"
  using getNodeStyleClass_chars [of cat]
  by (intro plainText_line) (simp_all add: plainLine_def isLinkStyle_def minifiedId_def newline_def)

lemma foldl_nodeStyles_plain:
  "plainText acc \<Longrightarrow> \<forall>entry \<in> set idm. minifiedId (fst entry) \<Longrightarrow>
   plainText (foldl (\<lambda>styles (nodeId, m).
        styles @ [newline] @ ''class '' @ nodeId @ '' '' @ getNodeStyleClass (fileCategory m))
      acc idm)"
proof (induction idm arbitrary: acc)
  case Nil
  then show ?case by simp
next
  case (Cons entry idm)
  obtain i m where entry: "entry = (i, m)" by (cases entry)
  have "plainText (acc @ newline # (''class '' @ i @ '' '' @ getNodeStyleClass (fileCategory m)))"
    using Cons.prems nodeStyle_plain [of i "fileCategory m"]
    by (intro plainText_append) (simp_all add: entry)
  then have "plainText (acc @ [newline] @ ''class '' @ i @ '' '' @ getNodeStyleClass (fileCategory m))"
    by simp
  from Cons.IH [OF this] Cons.prems(2) show ?case
    by (simp add: entry)
qed

lemma renderNodeStyles_plain:
  "\<forall>entry \<in> set (nodeIdToModule g). minifiedId (fst entry) \<Longrightarrow> plainText (renderNodeStyles g)"
  unfolding renderNodeStyles_def by (rule foldl_nodeStyles_plain) (simp_all add: plainText_Nil)

text \<open>The style directives are style directives and no edge statements.\<close>

lemma getEdgeColor_no_gt: "CHR ''>'' \<notin> set (getEdgeColor t)"
  by (cases t) simp_all

lemma edgeStyleOf_no_gt: "CHR ''>'' \<notin> set (edgeStyleOf idm ed)"
  by (auto simp: edgeStyleOf_def Let_def getEdgeColor_no_gt split: option.splits)

lemma styleDirective_props:
  "isLinkStyle (styleDirective idm ied)" "\<not> isEdgeLine (styleDirective idm ied)"
proof -
  have "styleDirective idm ied = ''linkStyle '' @ (toStringNat (fst ied) @ '' '' @ edgeStyleOf idm (snd ied))"
    by (simp add: styleDirective_def)
  then show "isLinkStyle (styleDirective idm ied)"
    unfolding isLinkStyle_def by (simp only: startsWith_prefix)
  have "CHR ''>'' \<notin> set (styleDirective idm ied)"
    using toStringRadix_no_gt [of 10 "fst ied"] edgeStyleOf_no_gt [of idm "snd ied"]
    by (simp add: styleDirective_def toStringNat_def)
  then show "\<not> isEdgeLine (styleDirective idm ied)"
    using strIncludes_set [of "styleDirective idm ied" "''-->''"] by (auto simp: isEdgeLine_def)
qed

lemma renderEdgeStyles_filter:
  "filter isLinkStyle (splitChar newline (renderEdgeStyles g edges)) =
     map (styleDirective (nodeIdToModule g)) (enumerate 0 edges) \<and>
   filter isEdgeLine (splitChar newline (renderEdgeStyles g edges)) = []"
proof -
  have n: "\<not> isLinkStyle []" "\<not> isEdgeLine []"
    by (simp_all add: isLinkStyle_def isEdgeLine_def)
  show ?thesis
    unfolding renderEdgeStyles_lines
    by (simp add: n filter_empty_conv filter_id_conv styleDirective_props)
qed

lemma enumerate_directives:
  "map (styleDirective idm) (enumerate 0 edges) =
     map (\<lambda>i. ''linkStyle '' @ toStringNat i @ '' '' @ edgeStyleOf idm (edges ! i)) [0..<length edges]"
  by (rule nth_equalityI) (simp_all add: nth_enumerate_eq styleDirective_def)

text \<open>The text of a diagram, part by part.\<close>

lemma textBeforeEdges_header:
  "textBeforeEdges mini subgraphs =
     diagramHeader @ newline # renderSubgraphs mini subgraphs 0 @ [newline]"
  unfolding textBeforeEdges_def diagramHeader_def
  by (simp only: append_assoc append_Cons append_Nil)

lemma header_plain: "plainText diagramHeader"
  by code_simp

lemma generate_lines:
  assumes "generate (newGenerator ms root True) = (Inr txt, g')"
  shows "\<exists>front. plainText front \<and>
    splitChar newline txt =
      splitChar newline front @ splitChar newline (renderEdges (convertEdgeSources g'))
      @ splitChar newline (renderNodeStyles g')
      @ splitChar newline (renderEdgeStyles g' (convertEdgeSources g'))"
proof -
  define g where "g = hashModuleNames (newGenerator ms root True)"
  note hm = hashModuleNames_minified [of ms root, folded g_def]
  show ?thesis
  proof (cases "convertSubgraphSources g")
    case (Inl err)
    with assms show ?thesis
      unfolding generate_cases g_def [symmetric] by simp
  next
    case (Inr subgraphs)
    from assms have eq: "(Inr (textBeforeEdges (minify g) subgraphs
                @ renderEdges (convertEdgeSources g) @ [newline]
                @ renderNodeStyles g @ [newline]
                @ renderEdgeStyles g (convertEdgeSources g)), g) = (Inr txt :: error + string, g')"
      unfolding generate_cases g_def [symmetric] Inr by (simp only: sum.case)
    then have g': "g' = g"
      by (simp only: prod.inject)
    from hm have mini: "minify g = True"
      by simp
    define front where "front = diagramHeader @ newline # renderSubgraphs True subgraphs 0"
    from eq have "txt = textBeforeEdges True subgraphs
                @ renderEdges (convertEdgeSources g) @ [newline]
                @ renderNodeStyles g @ [newline]
                @ renderEdgeStyles g (convertEdgeSources g)"
      unfolding mini by auto
    then have parts: "txt = front @ newline # (renderEdges (convertEdgeSources g) @ newline #
        (renderNodeStyles g @ newline # renderEdgeStyles g (convertEdgeSources g)))"
      unfolding textBeforeEdges_header front_def
      by (simp only: append_assoc append_Cons append_Nil)
    from Inr have "insertAll (namesHashMap g) [] ms = Inr subgraphs"
      using hm by (simp add: convertSubgraphSources_def)
    with hm have "\<forall>entry \<in> set subgraphs. wellNamed (snd entry)"
      using insertAll_wellNamed [of "namesHashMap g" "[]" ms subgraphs] by simp
    then have "plainText (renderSubgraphs True subgraphs 0)"
      using render_plain(1) [of True subgraphs 0] by simp
    with header_plain have pf: "plainText front"
      unfolding front_def by (rule plainText_append)
    show ?thesis
      unfolding g' parts using pf
      by (intro exI [of _ front]) (simp only: splitChar_append append_assoc simp_thms)
  qed
qed

lemma generate_minified:
  assumes "generate (newGenerator ms root True) = (Inr txt, g')"
  shows "(\<forall>entry \<in> set (namesHashMap g'). minifiedId (snd entry)) \<and>
    (\<forall>entry \<in> set (nodeIdToModule g'). minifiedId (fst entry))"
proof -
  from assms have "g' = hashModuleNames (newGenerator ms root True)"
    using snd_generate [of "newGenerator ms root True"] by simp
  then show ?thesis
    using hashModuleNames_minified [of ms root] by simp
qed

lemma style_generate:
  "generate (newGenerator styleModules ''/ws'' True) = (Inr styleText, styleGenerator)"
  by code_simp

text \<open>
  Claim C2: in the text \<^verbatim>\<open>generate\<close> returns for a module map, from a new generator with
  the flag set as \<^verbatim>\<open>generateMermaid\<close> builds it, the lines that are edge statements are
  exactly the statements of the deduplicated edges, in the order of the edge list; the
  lines that are \<^verbatim>\<open>linkStyle\<close> directives are exactly one for every edge, the \<open>i\<close>-th of
  them carrying the index \<open>i\<close> and the style of the \<open>i\<close>-th edge of that list, and they
  are the last lines of the text. So there are as many directives as edges, and the
  directive with index \<open>i\<close> styles the \<open>i\<close>-th edge statement of the text.
\<close>

theorem generate_edge_styles_aligned:
  assumes "generate (newGenerator ms root True) = (Inr txt, g')"
  shows "filter isEdgeLine (splitChar newline txt) = map edgeLine (convertEdgeSources g') \<and>
    filter isLinkStyle (splitChar newline txt) =
      map (\<lambda>i. ''linkStyle '' @ toStringNat i @ '' '' @
                edgeStyleOf (nodeIdToModule g') (convertEdgeSources g' ! i))
        [0..<length (convertEdgeSources g')] \<and>
    (\<exists>front. splitChar newline txt = front @ filter isLinkStyle (splitChar newline txt))"
proof -
  define edges where "edges = convertEdgeSources g'"
  from generate_lines [OF assms] obtain front where pf: "plainText front"
    and ls: "splitChar newline txt =
      splitChar newline front @ splitChar newline (renderEdges edges)
      @ splitChar newline (renderNodeStyles g')
      @ splitChar newline (renderEdgeStyles g' edges)"
    unfolding edges_def by blast
  note mi = generate_minified [OF assms]
  have em: "\<forall>ed \<in> set edges. minifiedId (fromNode ed) \<and> minifiedId (toNode ed)"
    unfolding edges_def using edges_minified [of g'] mi by blast
  note f1 = plainText_lines [OF pf]
  note f2 = renderEdges_lines [OF em]
  note f3 = plainText_lines [OF renderNodeStyles_plain [of g'], OF conjunct2 [OF mi]]
  note f4 = renderEdgeStyles_filter [of g' edges]
  have a: "filter isEdgeLine (splitChar newline txt) = map edgeLine edges"
    unfolding ls filter_append using f1 f2 f3 f4 by simp
  have b: "filter isLinkStyle (splitChar newline txt) =
      map (styleDirective (nodeIdToModule g')) (enumerate 0 edges)"
    unfolding ls filter_append using f1 f2 f3 f4 by simp
  have c: "splitChar newline txt =
      (splitChar newline front @ splitChar newline (renderEdges edges)
        @ splitChar newline (renderNodeStyles g') @ [[]])
      @ map (styleDirective (nodeIdToModule g')) (enumerate 0 edges)"
    unfolding ls renderEdgeStyles_lines by simp
  have d: "\<exists>front. splitChar newline txt = front @ filter isLinkStyle (splitChar newline txt)"
    unfolding b by (rule exI, rule c)
  from a b d show ?thesis
    unfolding edges_def enumerate_directives by (intro conjI)
qed

text \<open>
  In the example with four edges the edge statements and the directives are these, the
  dashed directives at the indices of the two edges into \<^verbatim>\<open>config\<close>.
\<close>

theorem generate_edge_styles_aligned_witness:
  "generate (newGenerator styleModules ''/ws'' True) = (Inr styleText, styleGenerator) \<and>
   filter isEdgeLine (splitChar newline styleText) =
     [''N1-->N3'', ''N1-->N6'', ''N3-->N4'', ''N3-->N6''] \<and>
   filter isLinkStyle (splitChar newline styleText) =
     [''linkStyle 0 stroke:#0066CC,stroke-width:2px'',
      ''linkStyle 1 stroke:#0099CC,stroke-width:2px,stroke-dasharray: 5 5'',
      ''linkStyle 2 stroke:#00AA00,stroke-width:2px'',
      ''linkStyle 3 stroke:#0099CC,stroke-width:2px,stroke-dasharray: 5 5'']"
proof -
  have e: "map edgeLine (convertEdgeSources styleGenerator) =
      [''N1-->N3'', ''N1-->N6'', ''N3-->N4'', ''N3-->N6'']"
    by code_simp
  have d: "map (\<lambda>i. ''linkStyle '' @ toStringNat i @ '' '' @
                edgeStyleOf (nodeIdToModule styleGenerator) (convertEdgeSources styleGenerator ! i))
        [0..<length (convertEdgeSources styleGenerator)] =
     [''linkStyle 0 stroke:#0066CC,stroke-width:2px'',
      ''linkStyle 1 stroke:#0099CC,stroke-width:2px,stroke-dasharray: 5 5'',
      ''linkStyle 2 stroke:#00AA00,stroke-width:2px'',
      ''linkStyle 3 stroke:#0099CC,stroke-width:2px,stroke-dasharray: 5 5'']"
    by code_simp
  from generate_edge_styles_aligned [OF style_generate]
  have "filter isEdgeLine (splitChar newline styleText) =
      map edgeLine (convertEdgeSources styleGenerator)"
    and "filter isLinkStyle (splitChar newline styleText) =
      map (\<lambda>i. ''linkStyle '' @ toStringNat i @ '' '' @
                edgeStyleOf (nodeIdToModule styleGenerator) (convertEdgeSources styleGenerator ! i))
        [0..<length (convertEdgeSources styleGenerator)]"
    by blast+
  then show ?thesis
    unfolding e d using style_generate by (intro conjI)
qed

end
